theory Spec2Isabelle
  imports Complex_Main "HOL-Library.Word" "HOL-Library.Log_Nat"
begin

section \<open>JavaScript strings and values\<close>

text \<open>
  A JavaScript string is a sequence of 16-bit code units. The regular expressions of the
  workers carry no \<open>u\<close> flag, so they work on code units, and every white space and
  line terminator code point lies in the basic plane: the model is one code unit per
  list element.
\<close>

type_synonym jschar = "16 word"
type_synonym jsstring = "jschar list"

definition js :: "string \<Rightarrow> jsstring" where
  "js s = map of_char s"

text \<open>\<open>LineTerminator\<close>: the code units that \<open>.\<close> does not match.\<close>

definition line_terminator :: "jschar \<Rightarrow> bool" where
  "line_terminator c = (c = 0x0A \<or> c = 0x0D \<or> c = 0x2028 \<or> c = 0x2029)"

text \<open>What \<open>String.prototype.trim\<close> removes: \<open>WhiteSpace\<close> and \<open>LineTerminator\<close>.\<close>

definition white_space :: "jschar \<Rightarrow> bool" where
  "white_space c =
     (c = 0x09 \<or> c = 0x0B \<or> c = 0x0C \<or> c = 0x20 \<or> c = 0xA0 \<or> c = 0x1680
      \<or> (0x2000 \<le> c \<and> c \<le> 0x200A) \<or> c = 0x202F \<or> c = 0x205F \<or> c = 0x3000
      \<or> c = 0xFEFF \<or> line_terminator c)"

definition trim :: "jsstring \<Rightarrow> jsstring" where
  "trim s = rev (dropWhile white_space (rev (dropWhile white_space s)))"

text \<open>
  \<open>s.split(/[,|]/)\<close>: the pieces between the separators, empty pieces included; the empty
  string gives one empty piece.
\<close>

definition separator :: "jschar \<Rightarrow> bool" where
  "separator c = (c = 0x2C \<or> c = 0x7C)"

fun split_on :: "(jschar \<Rightarrow> bool) \<Rightarrow> jsstring \<Rightarrow> jsstring list" where
  "split_on p [] = [[]]"
| "split_on p (c # cs) =
     (if p c then [] # split_on p cs
      else (case split_on p cs of [] \<Rightarrow> [[c]] | t # ts \<Rightarrow> (c # t) # ts))"

text \<open>
  \<open>s.replace(/^["'](.+)["']$/, "$1")\<close>: the pattern is anchored at both ends, so it matches
  the whole string or nothing: a quote, one or more code units none of which is a line
  terminator, a quote. The two quotes need not be the same character.
\<close>

definition quote_char :: "jschar \<Rightarrow> bool" where
  "quote_char c = (c = 0x22 \<or> c = 0x27)"

definition strip_outer_quotes :: "jsstring \<Rightarrow> jsstring" where
  "strip_outer_quotes s =
     (case s of
        [] \<Rightarrow> s
      | c # rest \<Rightarrow>
          if quote_char c \<and> 2 \<le> length rest \<and> quote_char (last rest)
             \<and> list_all (\<lambda>x. \<not> line_terminator x) (butlast rest)
          then butlast rest else s)"

text \<open>
  The values a record field holds: what csv-parse yields (strings), what an ExcelJS cell
  holds (numbers, strings, booleans, rich text, objects with a \<open>text\<close> property such as
  hyperlinks, other plain objects), and the token arrays the normalizer produces.
  Numbers are the integral ones, printed in decimal.
\<close>

datatype jsval =
    VUndefined
  | VNull
  | VBool bool
  | VNum int
  | VStr jsstring
  | VArr "jsstring list"
  | VRich "jsstring list"
  | VText jsstring
  | VObj

fun truthy :: "jsval \<Rightarrow> bool" where
  "truthy VUndefined = False"
| "truthy VNull = False"
| "truthy (VBool b) = b"
| "truthy (VNum n) = (n \<noteq> 0)"
| "truthy (VStr s) = (s \<noteq> [])"
| "truthy _ = True"

text \<open>\<open>typeof v === "string"\<close> and \<open>Array.isArray(v)\<close>.\<close>

fun is_string :: "jsval \<Rightarrow> bool" where
  "is_string (VStr s) = True"
| "is_string _ = False"

fun isArray :: "jsval \<Rightarrow> bool" where
  "isArray (VArr xs) = True"
| "isArray _ = False"

fun digits :: "nat \<Rightarrow> nat \<Rightarrow> jsstring" where
  "digits 0 n = []"
| "digits (Suc fuel) n =
     (if n < 10 then [of_nat (48 + n)]
      else digits fuel (n div 10) @ [of_nat (48 + n mod 10)])"

definition show_int :: "int \<Rightarrow> jsstring" where
  "show_int i =
     (if i < 0 then 0x2D # digits (Suc (nat (- i))) (nat (- i))
      else digits (Suc (nat i)) (nat i))"

text \<open>\<open>String(v)\<close>, which is what \<open>v.toString()\<close> returns on every truthy value.\<close>

fun toString :: "jsval \<Rightarrow> jsstring" where
  "toString VUndefined = js ''undefined''"
| "toString VNull = js ''null''"
| "toString (VBool b) = (if b then js ''true'' else js ''false'')"
| "toString (VNum n) = show_int n"
| "toString (VStr s) = s"
| "toString (VArr xs) = concat (case xs of [] \<Rightarrow> [] | y # ys \<Rightarrow> y # map (\<lambda>z. 0x2C # z) ys)"
| "toString (VRich runs) = js ''[object Object]''"
| "toString (VText t) = js ''[object Object]''"
| "toString VObj = js ''[object Object]''"

section \<open>Multi-value field normalization\<close>

text \<open>The tail both workers share: split on comma or pipe, trim, drop the empty tokens.\<close>

definition split_tokens :: "jsstring \<Rightarrow> jsstring list" where
  "split_tokens s = filter (\<lambda>v. v \<noteq> []) (map trim (split_on separator s))"

text \<open>\<open>parseMultiValueField\<close> of the CSV worker: anything but a string gives \<open>[]\<close>.\<close>

fun csv_parseMultiValueField :: "jsval \<Rightarrow> jsstring list" where
  "csv_parseMultiValueField v =
     (if \<not> truthy v then []
      else (case v of
              VStr s \<Rightarrow> split_tokens (strip_outer_quotes s)
            | _ \<Rightarrow> []))"

text \<open>
  \<open>parseMultiValueField\<close> of the Excel worker: an array is mapped element by element,
  anything else is stringified first.
\<close>

fun excel_parseMultiValueField :: "jsval \<Rightarrow> jsstring list" where
  "excel_parseMultiValueField v =
     (if \<not> truthy v then []
      else (case v of
              VArr xs \<Rightarrow> filter (\<lambda>t. t \<noteq> []) (map trim xs)
            | _ \<Rightarrow> split_tokens (strip_outer_quotes (toString v))))"

section \<open>Double-precision arithmetic\<close>

text \<open>
  JavaScript numbers are IEEE 754 binary64 values. \<open>fl\<close> rounds a rational to the nearest
  number with a 53-bit significand, ties to the even significand. The exponent range is
  not bounded in the model (no overflow, no subnormals): the quotients formed below have
  operands below \<open>2 ^ 53\<close>, far inside the normal range.
\<close>

definition binade :: "rat \<Rightarrow> int" where
  "binade x =
     (let (p, q) = quotient_of x; d = bitlen p - bitlen q
      in if 2 powi d \<le> x then d else d - 1)"

definition round_even :: "rat \<Rightarrow> int" where
  "round_even q =
     (let f = \<lfloor>q\<rfloor>; r = q - of_int f
      in if r < 1 / 2 then f else if 1 / 2 < r then f + 1
         else if even f then f else f + 1)"

definition fl :: "rat \<Rightarrow> rat" where
  "fl x =
     (if x = 0 then 0
      else (let u = 2 powi (binade \<bar>x\<bar> - 52)
            in sgn x * (of_int (round_even (\<bar>x\<bar> / u)) * u)))"

text \<open>
  \<open>Math.floor(((processed + failed) / total) * 100)\<close>: a division and a multiplication,
  each rounded. Inside the record loop \<open>total\<close> is the length of a non-empty array.
\<close>

definition js_progress :: "nat \<Rightarrow> nat \<Rightarrow> nat" where
  "js_progress k t = nat \<lfloor>fl (fl (of_nat k / of_nat t) * 100)\<rfloor>"

section \<open>Records, results and the log\<close>

text \<open>
  A record is a JavaScript object: its own properties in insertion order. Assigning to
  an existing key keeps the key's position.
\<close>

type_synonym jsrecord = "(jsstring \<times> jsval) list"

definition get_field :: "jsrecord \<Rightarrow> jsstring \<Rightarrow> jsval" where
  "get_field r k = (case map_of r k of None \<Rightarrow> VUndefined | Some v \<Rightarrow> v)"

fun set_field :: "('k \<times> 'v) list \<Rightarrow> 'k \<Rightarrow> 'v \<Rightarrow> ('k \<times> 'v) list" where
  "set_field [] k v = [(k, v)]"
| "set_field ((k', v') # r) k v =
     (if k' = k then (k, v) # r else (k', v') # set_field r k v)"

datatype error = Error jsstring | TypeError jsstring | ENOENT jsstring

fun message :: "error \<Rightarrow> jsstring" where
  "message (Error m) = m"
| "message (TypeError m) = m"
| "message (ENOENT p) = js ''ENOENT: no such file or directory, open '' @ p"

record outcome =
  success :: bool
  data :: jsrecord

record field_stats =
  totalValues :: nat
  uniqueValues :: "jsstring list"
  maxValuesInField :: nat

record results =
  processed :: nat
  failed :: nat
  total :: nat
  records :: "outcome list"
  summary :: "(jsstring \<times> field_stats) list"

datatype level = Info | Err

datatype meta =
    NoMeta
  | MetaError error
  | MetaRecordError jsstring jsrecord
  | MetaFailedRecord error jsrecord
  | MetaMultiValues jsrecord
  | MetaResults results

record log_entry =
  lvl :: level
  msg :: jsstring
  meta :: meta

definition logger :: "level \<Rightarrow> jsstring \<Rightarrow> meta \<Rightarrow> log_entry list \<Rightarrow> log_entry list" where
  "logger l m x lg = lg @ [\<lparr>lvl = l, msg = m, meta = x\<rparr>]"

section \<open>The record processor\<close>

text \<open>
  \<open>processRecord\<close> of the two workers differs in the list of multi-value fields and in the
  normalizer. Its \<open>try\<close> block builds the processed record, writes to the console, waits
  on a timer and calls the logger; \<open>faults\<close> says on which records that block throws, and
  what. The \<open>catch\<close> logs and rethrows. Console output is not part of the model.
\<close>

definition processRecord ::
  "jsstring list \<Rightarrow> (jsval \<Rightarrow> jsstring list) \<Rightarrow> (jsrecord \<Rightarrow> error option) \<Rightarrow>
   nat \<Rightarrow> jsrecord \<Rightarrow> log_entry list \<Rightarrow> (error + outcome) \<times> log_entry list" where
  "processRecord multiValueFields parseMultiValueField faults jobId record lg =
     (let processedRecord =
            fold (\<lambda>field r. set_field r field (VArr (parseMultiValueField (get_field record field))))
              (filter (\<lambda>field. truthy (get_field record field)) multiValueFields) record
      in case faults record of
           Some e \<Rightarrow>
             (Inl e,
              logger Err (js ''Error processing record for job '' @ show_int (int jobId) @ js '':'')
                (MetaRecordError (message e) record) lg)
         | None \<Rightarrow>
             (Inr \<lparr>success = True, data = processedRecord\<rparr>,
              logger Info
                (js ''Processed record for job '' @ show_int (int jobId) @ js '': ''
                   @ toString (get_field record (js ''ProductID'')))
                (MetaMultiValues
                   (map (\<lambda>field. (field, get_field processedRecord field))
                      (filter (\<lambda>field. truthy (get_field processedRecord field)) multiValueFields)))
                lg))"

definition csv_processRecord ::
  "(jsrecord \<Rightarrow> error option) \<Rightarrow> nat \<Rightarrow> jsrecord \<Rightarrow> log_entry list \<Rightarrow>
   (error + outcome) \<times> log_entry list" where
  "csv_processRecord =
     processRecord [js ''Tags'', js ''Categories'', js ''Attributes''] csv_parseMultiValueField"

definition excel_processRecord ::
  "(jsrecord \<Rightarrow> error option) \<Rightarrow> nat \<Rightarrow> jsrecord \<Rightarrow> log_entry list \<Rightarrow>
   (error + outcome) \<times> log_entry list" where
  "excel_processRecord =
     processRecord [js ''Tags'', js ''Categories''] excel_parseMultiValueField"

section \<open>The parsers\<close>

text \<open>
  The file system maps a path to the contents stored there. The csv-parse and ExcelJS
  libraries are parameters: \<open>csvParser\<close> turns contents into records or fails, \<open>readFile\<close>
  turns contents into a workbook or fails.
\<close>

definition parseCSV ::
  "('f \<Rightarrow> error + jsrecord list) \<Rightarrow> (jsstring \<rightharpoonup> 'f) \<Rightarrow> jsstring \<Rightarrow> log_entry list \<Rightarrow>
   (error + jsrecord list) \<times> log_entry list" where
  "parseCSV csvParser fs filePath lg =
     (case fs filePath of
        None \<Rightarrow> (Inl (ENOENT filePath), lg)
      | Some f \<Rightarrow>
          (case csvParser f of
             Inl err \<Rightarrow> (Inl err, logger Err (js ''Error parsing CSV:'') (MetaError err) lg)
           | Inr recs \<Rightarrow> (Inr recs, lg)))"

text \<open>
  A worksheet is the list of its rows that hold a value, each with its row number and
  with \<open>row.values.slice(1)\<close>: the cell of column \<open>i + 1\<close> at index \<open>i\<close>, \<open>None\<close> where the
  sparse array has a hole. A workbook lists its worksheets by id.
\<close>

type_synonym worksheet = "(nat \<times> jsval option list) list"
type_synonym workbook = "(nat \<times> worksheet) list"

definition getRow_values :: "worksheet \<Rightarrow> nat \<Rightarrow> jsval option list" where
  "getRow_values ws n = (case map_of ws n of None \<Rightarrow> [] | Some vs \<Rightarrow> vs)"

definition requiredColumns :: "jsstring list" where
  "requiredColumns = [js ''ProductID'', js ''ProductName'', js ''Price'', js ''Quantity'']"

text \<open>\<open>headers.includes(col)\<close> for a string \<open>col\<close>: some cell is that very string.\<close>

definition array_includes :: "jsval option list \<Rightarrow> jsstring \<Rightarrow> bool" where
  "array_includes headers col = (Some (VStr col) \<in> set headers)"

fun join :: "jsstring \<Rightarrow> jsstring list \<Rightarrow> jsstring" where
  "join sep [] = []"
| "join sep [x] = x"
| "join sep (x # y # ys) = x @ sep @ join sep (y # ys)"

definition missingColumns :: "jsval option list \<Rightarrow> jsstring list" where
  "missingColumns headers = filter (\<lambda>col. \<not> array_includes headers col) requiredColumns"

text \<open>The property key \<open>headers[index]\<close> is converted to: \<open>undefined\<close> out of range or on a hole.\<close>

definition header_key :: "jsval option list \<Rightarrow> nat \<Rightarrow> jsstring" where
  "header_key headers index =
     (if index < length headers
      then (case headers ! index of None \<Rightarrow> toString VUndefined | Some h \<Rightarrow> toString h)
      else toString VUndefined)"

fun cell_value :: "jsval \<Rightarrow> jsval" where
  "cell_value (VRich runs) = VStr (concat runs)"
| "cell_value (VText t) = (if t \<noteq> [] then VStr t else VText t)"
| "cell_value v = v"

fun row_record :: "jsval option list \<Rightarrow> nat \<Rightarrow> jsval option list \<Rightarrow> jsrecord \<Rightarrow> jsrecord" where
  "row_record headers index [] r = r"
| "row_record headers index (None # vs) r = row_record headers (Suc index) vs r"
| "row_record headers index (Some v # vs) r =
     row_record headers (Suc index) vs (set_field r (header_key headers index) (cell_value v))"

definition parse_worksheet :: "worksheet \<Rightarrow> error + jsrecord list" where
  "parse_worksheet worksheet =
     (let headers = getRow_values worksheet 1
      in if missingColumns headers \<noteq> []
         then Inl (Error (js ''Missing required columns: '' @ join (js '', '') (missingColumns headers)))
         else Inr (map (\<lambda>(rowNumber, vs). row_record headers 0 vs [])
                     (filter (\<lambda>(rowNumber, vs). rowNumber \<noteq> 1) worksheet)))"

definition parseExcel ::
  "('f \<Rightarrow> error + workbook) \<Rightarrow> (jsstring \<rightharpoonup> 'f) \<Rightarrow> jsstring \<Rightarrow> log_entry list \<Rightarrow>
   (error + jsrecord list) \<times> log_entry list" where
  "parseExcel readFile fs filePath lg =
     (let r = (case fs filePath of
                 None \<Rightarrow> Inl (ENOENT filePath)
               | Some f \<Rightarrow>
                   (case readFile f of
                      Inl err \<Rightarrow> Inl err
                    | Inr workbook \<Rightarrow>
                        (case map_of workbook 1 of
                           None \<Rightarrow> Inl (TypeError (js ''Cannot read properties of undefined''))
                         | Some worksheet \<Rightarrow> parse_worksheet worksheet)))
      in case r of
           Inl err \<Rightarrow> (Inl err, logger Err (js ''Error parsing Excel:'') (MetaError err) lg)
         | Inr recs \<Rightarrow> (Inr recs, lg))"

section \<open>The queue processor\<close>

datatype job_state = Waiting | Active | Completed | Failed | Delayed

record job_data =
  filePath :: jsstring
  originalName :: jsstring
  fileType :: jsstring
  timestamp :: nat

record job =
  job_id :: nat
  job_data :: job_data
  created :: nat
  progress :: nat
  state :: job_state
  returnvalue :: "results option"
  failedReason :: "jsstring option"
  processedOn :: "nat option"
  finishedOn :: "nat option"

text \<open>
  What the processor acts on besides the job: the files, the log, and the sequence of
  values it has passed to \<open>job.progress\<close>.
\<close>

record 'f world =
  files :: "jsstring \<rightharpoonup> 'f"
  logged :: "log_entry list"
  emitted :: "nat list"

text \<open>A \<open>Set\<close> keeps its elements in insertion order; \<open>Array.from\<close> lists them in that order.\<close>

definition set_add :: "jsstring \<Rightarrow> jsstring list \<Rightarrow> jsstring list" where
  "set_add v s = (if v \<in> set s then s else s @ [v])"

definition field_summary ::
  "(jsstring \<times> field_stats) list \<Rightarrow> jsstring \<Rightarrow> jsstring list \<Rightarrow> (jsstring \<times> field_stats) list" where
  "field_summary summ field vals =
     (let st = (case map_of summ field of
                  None \<Rightarrow> \<lparr>totalValues = 0, uniqueValues = [], maxValuesInField = 0\<rparr>
                | Some st \<Rightarrow> st)
      in set_field summ field
           \<lparr>totalValues = totalValues st + length vals,
            uniqueValues = fold set_add vals (uniqueValues st),
            maxValuesInField = max (maxValuesInField st) (length vals)\<rparr>)"

definition collect_statistics :: "outcome \<Rightarrow> results \<Rightarrow> results" where
  "collect_statistics processedRecord res =
     fold (\<lambda>(field, v) res'.
             case v of VArr vals \<Rightarrow> res'\<lparr>summary := field_summary (summary res') field vals\<rparr>
                     | _ \<Rightarrow> res')
       (data processedRecord) res"

text \<open>
  One turn of \<open>for (const record of records)\<close>: the inner \<open>try\<close> and \<open>catch\<close>, then the
  progress computed from the counters and passed to \<open>job.progress\<close>, which stores it in
  the job.
\<close>

definition record_step ::
  "(nat \<Rightarrow> jsrecord \<Rightarrow> log_entry list \<Rightarrow> (error + outcome) \<times> log_entry list) \<Rightarrow>
   jsrecord \<Rightarrow> results \<times> job \<times> 'f world \<Rightarrow> results \<times> job \<times> 'f world" where
  "record_step proc record st =
     (case st of (res, job, w) \<Rightarrow>
        (case proc (job_id job) record (logged w) of
           (Inr processedRecord, lg) \<Rightarrow>
             (let res1 = collect_statistics processedRecord
                           (res\<lparr>processed := processed res + 1,
                                records := records res @ [processedRecord]\<rparr>);
                  p = js_progress (processed res1 + failed res1) (total res1)
              in (res1, job\<lparr>progress := p\<rparr>, w\<lparr>logged := lg, emitted := emitted w @ [p]\<rparr>))
         | (Inl err, lg) \<Rightarrow>
             (let res1 = res\<lparr>failed := failed res + 1\<rparr>;
                  p = js_progress (processed res1 + failed res1) (total res1)
              in (res1, job\<lparr>progress := p\<rparr>,
                  w\<lparr>logged := logger Err (js ''Failed to process record'') (MetaFailedRecord err record) lg,
                    emitted := emitted w @ [p]\<rparr>))))"

fun record_loop ::
  "(nat \<Rightarrow> jsrecord \<Rightarrow> log_entry list \<Rightarrow> (error + outcome) \<times> log_entry list) \<Rightarrow>
   jsrecord list \<Rightarrow> results \<times> job \<times> 'f world \<Rightarrow> results \<times> job \<times> 'f world" where
  "record_loop proc [] st = st"
| "record_loop proc (record # rest) st = record_loop proc rest (record_step proc record st)"

definition unlinkSync :: "(jsstring \<rightharpoonup> 'f) \<Rightarrow> jsstring \<Rightarrow> error + (jsstring \<rightharpoonup> 'f)" where
  "unlinkSync fs p = (if fs p = None then Inl (ENOENT p) else Inr (fs(p := None)))"

definition initial_results :: results where
  "initial_results = \<lparr>processed = 0, failed = 0, total = 0, records = [], summary = []\<rparr>"

text \<open>
  The function given to \<open>queue.process\<close>, the same text in both workers but for the parser
  and the record processor. It returns what it throws (if it throws), the local \<open>results\<close>
  as they are when it leaves, the job and the world.
\<close>

definition process ::
  "((jsstring \<rightharpoonup> 'f) \<Rightarrow> jsstring \<Rightarrow> log_entry list \<Rightarrow> (error + jsrecord list) \<times> log_entry list) \<Rightarrow>
   (nat \<Rightarrow> jsrecord \<Rightarrow> log_entry list \<Rightarrow> (error + outcome) \<times> log_entry list) \<Rightarrow>
   job \<Rightarrow> 'f world \<Rightarrow> error option \<times> results \<times> job \<times> 'f world" where
  "process parse proc job w =
     (let path = filePath (job_data job);
          lg0 = logger Info (js ''Starting to process file: '' @ path) NoMeta (logged w)
      in case parse (files w) path lg0 of
           (Inl err, lg1) \<Rightarrow>
             (Some err, initial_results, job,
              w\<lparr>logged := logger Err (js ''Job '' @ show_int (int (job_id job)) @ js '' failed:'')
                            (MetaError err) lg1\<rparr>)
         | (Inr recs, lg1) \<Rightarrow>
             (case record_loop proc recs
                     (initial_results\<lparr>total := length recs\<rparr>, job, w\<lparr>logged := lg1\<rparr>) of
                (res, job', w') \<Rightarrow>
                  (case unlinkSync (files w') path of
                     Inl err \<Rightarrow>
                       (Some err, res, job',
                        w'\<lparr>logged := logger Err (js ''Job '' @ show_int (int (job_id job)) @ js '' failed:'')
                                       (MetaError err) (logged w')\<rparr>)
                   | Inr fs' \<Rightarrow>
                       (None, res, job',
                        w'\<lparr>files := fs',
                           logged := logger Info
                                       (js ''Job '' @ show_int (int (job_id job)) @ js '' completed'')
                                       (MetaResults res) (logged w')\<rparr>))))"

definition csv_process ::
  "('f \<Rightarrow> error + jsrecord list) \<Rightarrow> (jsrecord \<Rightarrow> error option) \<Rightarrow>
   job \<Rightarrow> 'f world \<Rightarrow> error option \<times> results \<times> job \<times> 'f world" where
  "csv_process csvParser faults = process (parseCSV csvParser) (csv_processRecord faults)"

definition excel_process ::
  "('f \<Rightarrow> error + workbook) \<Rightarrow> (jsrecord \<Rightarrow> error option) \<Rightarrow>
   job \<Rightarrow> 'f world \<Rightarrow> error option \<times> results \<times> job \<times> 'f world" where
  "excel_process readFile faults = process (parseExcel readFile) (excel_processRecord faults)"

text \<open>
  Bull around the processor: a claimed job is active; when the processor returns, the job
  is completed with the returned value, and when it throws, the job is failed with the
  error's message.
\<close>

definition run_job ::
  "(job \<Rightarrow> 'f world \<Rightarrow> error option \<times> results \<times> job \<times> 'f world) \<Rightarrow>
   nat \<Rightarrow> nat \<Rightarrow> job \<Rightarrow> 'f world \<Rightarrow> job \<times> 'f world" where
  "run_job processor started finished job w =
     (case processor (job\<lparr>state := Active, processedOn := Some started\<rparr>) w of
        (None, res, job', w') \<Rightarrow>
          (job'\<lparr>state := Completed, returnvalue := Some res, finishedOn := Some finished\<rparr>, w')
      | (Some err, res, job', w') \<Rightarrow>
          (job'\<lparr>state := Failed, failedReason := Some (message err), finishedOn := Some finished\<rparr>, w'))"

section \<open>The API: upload\<close>

text \<open>
  \<open>path.extname\<close> of Node on POSIX: trailing slashes are skipped, the last path component
  is taken, and its extension runs from its last dot to its end; there is none when the
  component has no dot, when its last dot is its first character, or when it is \<open>..\<close>.
\<close>

definition path_extname :: "jsstring \<Rightarrow> jsstring" where
  "path_extname path =
     (let trimmed = rev (dropWhile (\<lambda>c. c = 0x2F) (rev path));
          part = rev (takeWhile (\<lambda>c. c \<noteq> 0x2F) (rev trimmed));
          ext = rev (takeWhile (\<lambda>c. c \<noteq> 0x2E) (rev part))
      in if 0x2E \<notin> set part \<or> length part = Suc (length ext) \<or> part = [0x2E, 0x2E]
         then [] else 0x2E # ext)"

text \<open>
  \<open>toLowerCase\<close> on the letters \<open>A\<close> to \<open>Z\<close>. Other code units are left as they are: none of
  them lower-cases to a character of \<open>.csv\<close>, \<open>.xlsx\<close> or \<open>.xls\<close>, so the comparisons below
  are the same as with the full Unicode mapping.
\<close>

definition toLowerCase :: "jsstring \<Rightarrow> jsstring" where
  "toLowerCase s = map (\<lambda>c. if 0x41 \<le> c \<and> c \<le> 0x5A then c + 0x20 else c) s"

fun starts_with :: "jsstring \<Rightarrow> jsstring \<Rightarrow> bool" where
  "starts_with s [] = True"
| "starts_with [] (p # ps) = False"
| "starts_with (c # cs) (p # ps) = (c = p \<and> starts_with cs ps)"

text \<open>\<open>s.includes(p)\<close>, and also \<open>/p/.test(s)\<close> for a pattern of plain letters.\<close>

fun string_includes :: "jsstring \<Rightarrow> jsstring \<Rightarrow> bool" where
  "string_includes [] p = (p = [])"
| "string_includes (c # cs) p = (starts_with (c # cs) p \<or> string_includes cs p)"

record upload_file =
  originalname :: jsstring
  mimetype :: jsstring
  path :: jsstring
  exceedsLimit :: bool

definition fileFilter :: "upload_file \<Rightarrow> bool" where
  "fileFilter file =
     (let ext = toLowerCase (path_extname (originalname file));
          extname = (string_includes ext (js ''csv'') \<or> string_includes ext (js ''xlsx'')
                     \<or> string_includes ext (js ''xls''));
          mime = (string_includes (mimetype file) (js ''csv'')
                  \<or> string_includes (mimetype file) (js ''spreadsheetml'')
                  \<or> string_includes (mimetype file) (js ''excel''))
      in extname \<and> mime)"

datatype queue_name = CsvQueue | ExcelQueue

definition getQueueForFile :: "jsstring \<Rightarrow> error + queue_name \<times> jsstring" where
  "getQueueForFile filename =
     (let ext = toLowerCase (path_extname filename)
      in if ext = js ''.csv'' then Inr (CsvQueue, js ''csv'')
         else if ext = js ''.xlsx'' \<or> ext = js ''.xls'' then Inr (ExcelQueue, js ''excel'')
         else Inl (Error (js ''Unsupported file type'')))"

text \<open>
  A Bull queue as the API sees it: the next job id and the jobs of each state, as
  \<open>getWaiting\<close>, \<open>getActive\<close>, \<open>getCompleted\<close>, \<open>getFailed\<close> and \<open>getDelayed\<close> return them.
\<close>

record queue =
  nextId :: nat
  getWaiting :: "job list"
  getActive :: "job list"
  getCompleted :: "job list"
  getFailed :: "job list"
  getDelayed :: "job list"

record queues =
  csvQueue :: queue
  excelQueue :: queue

definition queue_add :: "job_data \<Rightarrow> nat \<Rightarrow> queue \<Rightarrow> job \<times> queue" where
  "queue_add d now q =
     (let j = \<lparr>job_id = nextId q, job_data = d, created = now, progress = 0, state = Waiting,
               returnvalue = None, failedReason = None, processedOn = None, finishedOn = None\<rparr>
      in (j, q\<lparr>nextId := Suc (nextId q), getWaiting := getWaiting q @ [j]\<rparr>))"

datatype upload_body =
    UploadError jsstring
  | Queued jsstring nat jsstring jsstring

text \<open>
  \<open>POST /upload\<close> with multer in front and the error-handling middleware behind: the file
  filter runs first and its error goes to the middleware, which answers 400 only to the
  size limit error of multer and 500 to everything else; the handler answers 400 to a
  request without a file and 500 to whatever is thrown inside its \<open>try\<close>. Whether a file
  exceeds the limit is multer's finding, a field of the request here. The log of the API
  is not part of the model.
\<close>

definition upload :: "upload_file option \<Rightarrow> nat \<Rightarrow> queues \<Rightarrow> (nat \<times> upload_body) \<times> queues" where
  "upload req_file now qs =
     (case req_file of
        None \<Rightarrow> ((400, UploadError (js ''No file uploaded'')), qs)
      | Some file \<Rightarrow>
          if \<not> fileFilter file
          then ((500, UploadError (js ''Only CSV and Excel files are allowed!'')), qs)
          else if exceedsLimit file
          then ((400, UploadError (js ''File size is too large. Max size is 5MB'')), qs)
          else (case getQueueForFile (originalname file) of
                  Inl err \<Rightarrow>
                    ((500, UploadError (if message err = [] then js ''Error processing upload''
                                        else message err)), qs)
                | Inr (q, type) \<Rightarrow>
                    (let d = \<lparr>filePath = path file, originalName = originalname file,
                               fileType = type, timestamp = now\<rparr>
                     in case q of
                          CsvQueue \<Rightarrow>
                            (case queue_add d now (csvQueue qs) of
                               (j, q') \<Rightarrow>
                                 ((200, Queued (js ''File queued for processing'') (job_id j)
                                          (originalname file) type),
                                  qs\<lparr>csvQueue := q'\<rparr>))
                        | ExcelQueue \<Rightarrow>
                            (case queue_add d now (excelQueue qs) of
                               (j, q') \<Rightarrow>
                                 ((200, Queued (js ''File queued for processing'') (job_id j)
                                          (originalname file) type),
                                  qs\<lparr>excelQueue := q'\<rparr>)))))"

section \<open>The API: job listing\<close>

text \<open>\<open>Array.prototype.slice(start, end)\<close>: a negative index counts from the end.\<close>

definition js_slice :: "'a list \<Rightarrow> int \<Rightarrow> int \<Rightarrow> 'a list" where
  "js_slice xs start end' =
     (let len = int (length xs);
          k = (if start < 0 then max (len + start) 0 else min start len);
          final = (if end' < 0 then max (len + end') 0 else min end' len)
      in take (nat (final - k)) (drop (nat k) xs))"

text \<open>\<open>Math.ceil(jobs.length / pageSize)\<close>, the division rounded to a double.\<close>

definition totalPages_of :: "nat \<Rightarrow> int \<Rightarrow> int" where
  "totalPages_of n pageSize = \<lceil>fl (of_nat n / of_int pageSize)\<rceil>"

definition getQueueByWorkerType :: "jsstring \<Rightarrow> queues \<Rightarrow> (queue \<times> jsstring) option" where
  "getQueueByWorkerType workerType qs =
     (if toLowerCase workerType = js ''csv'' then Some (csvQueue qs, js ''csv'')
      else if toLowerCase workerType = js ''excel'' then Some (excelQueue qs, js ''excel'')
      else None)"

text \<open>
  The query of \<open>GET /jobs\<close>: \<open>worker\<close> and \<open>status\<close> as sent, \<open>page\<close> and \<open>pageSize\<close> as
  \<open>parseInt\<close> reads them: \<open>None\<close> is \<open>NaN\<close>, and the infinite value that a digit string too long
  for a double reads as is left out. Products and sums of the two are exact, as they are
  in doubles below \<open>2 ^ 53\<close>; beyond that both the exact and the rounded index lie past the
  end of every array, and \<open>slice\<close> cuts them to its length alike.
\<close>

record jobs_query =
  worker :: "jsstring option"
  status :: "jsstring option"
  page_param :: "int option"
  pageSize_param :: "int option"

record pagination =
  page :: int
  pageSize :: int
  totalJobs :: nat
  totalPages :: int

record job_counts =
  waiting :: nat
  active :: nat
  completed :: nat
  failed_count :: nat
  delayed :: nat

datatype jobs_body =
    JobsError jsstring
  | JobsPage jsstring jsstring pagination job_counts "job list"

definition getJobCounts :: "queue \<Rightarrow> job_counts" where
  "getJobCounts q =
     \<lparr>waiting = length (getWaiting q), active = length (getActive q),
      completed = length (getCompleted q), failed_count = length (getFailed q),
      delayed = length (getDelayed q)\<rparr>"

definition or_default :: "int option \<Rightarrow> int \<Rightarrow> int" where
  "or_default n d = (case n of None \<Rightarrow> d | Some i \<Rightarrow> if i = 0 then d else i)"

definition jobs_by_status :: "queue \<Rightarrow> jsstring \<Rightarrow> job list option" where
  "jobs_by_status q st =
     (if st = js ''active'' then Some (getActive q)
      else if st = js ''completed'' then Some (getCompleted q)
      else if st = js ''failed'' then Some (getFailed q)
      else if st = js ''delayed'' then Some (getDelayed q)
      else if st = js ''waiting'' then Some (getWaiting q)
      else None)"

definition list_jobs :: "jobs_query \<Rightarrow> queues \<Rightarrow> nat \<times> jobs_body" where
  "list_jobs query qs =
     (let st = (case status query of None \<Rightarrow> js ''active''
                | Some s \<Rightarrow> if s = [] then js ''active'' else s);
          pg = or_default (page_param query) 1;
          size = or_default (pageSize_param query) 10
      in case worker query of
           None \<Rightarrow> (400, JobsError (js ''Worker type is required. Use ?worker=csv or ?worker=excel''))
         | Some workerType \<Rightarrow>
             if workerType = []
             then (400, JobsError (js ''Worker type is required. Use ?worker=csv or ?worker=excel''))
             else (case getQueueByWorkerType workerType qs of
                     None \<Rightarrow> (400, JobsError (js ''Invalid worker type. Use 'csv' or 'excel'' @ [0x27]))
                   | Some (q, type) \<Rightarrow>
                       (case jobs_by_status q st of
                          None \<Rightarrow> (400, JobsError (js ''Invalid status type''))
                        | Some jobs \<Rightarrow>
                            (let start = (pg - 1) * size;
                                 paginatedJobs = js_slice jobs start (start + size)
                             in (200, JobsPage workerType st
                                        \<lparr>page = pg, pageSize = size, totalJobs = length jobs,
                                         totalPages = totalPages_of (length jobs) size\<rparr>
                                        (getJobCounts q) paginatedJobs)))))"

text \<open>
  The claim's reading of a page, in its own words: the jobs at the 0-indexed positions
  from \<open>(page - 1) * pageSize\<close> up to, not including, \<open>page * pageSize\<close>.
\<close>

definition positions_page :: "'a list \<Rightarrow> int \<Rightarrow> int \<Rightarrow> 'a list" where
  "positions_page jobs p s =
     map (\<lambda>i. jobs ! i)
       (filter (\<lambda>i. (p - 1) * s \<le> int i \<and> int i < p * s) [0..<length jobs])"

text \<open>The jobs at the positions \<open>a\<close> up to, not including, \<open>b\<close>.\<close>

definition jobs_at :: "'a list \<Rightarrow> nat \<Rightarrow> nat \<Rightarrow> 'a list" where
  "jobs_at jobs a b = map (\<lambda>i. jobs ! i) [a..<b]"

section \<open>Example inputs\<close>

text \<open>
  A CSV upload of two records, an upload with no record, a path with no file behind it,
  a spreadsheet without a \<open>Price\<close> column, three record processors, a queue of
  twenty-five completed jobs, and three uploads.
\<close>

definition example_records :: "jsrecord list" where
  "example_records =
     [[(js ''ProductID'', VStr (js ''P1'')), (js ''Tags'', VStr (js ''a,b''))],
      [(js ''ProductID'', VStr (js ''P2'')), (js ''Tags'', VStr (js ''c''))]]"

definition example_job :: job where
  "example_job =
     \<lparr>job_id = 7,
      job_data = \<lparr>filePath = js ''uploads/1.csv'', originalName = js ''products.csv'',
                  fileType = js ''csv'', timestamp = 0\<rparr>,
      created = 0, progress = 0, state = Waiting, returnvalue = None, failedReason = None,
      processedOn = None, finishedOn = None\<rparr>"

definition example_world :: "jsrecord list world" where
  "example_world =
     \<lparr>files = [js ''uploads/1.csv'' \<mapsto> example_records], logged = [], emitted = []\<rparr>"

definition empty_world :: "jsrecord list world" where
  "empty_world = \<lparr>files = [js ''uploads/1.csv'' \<mapsto> []], logged = [], emitted = []\<rparr>"

definition missing_world :: "jsrecord list world" where
  "missing_world = \<lparr>files = Map.empty, logged = [], emitted = []\<rparr>"


definition always_fails :: "jsrecord \<Rightarrow> error option" where
  "always_fails r = Some (Error (js ''boom''))"

definition never_fails :: "jsrecord \<Rightarrow> error option" where
  "never_fails r = None"

definition example_sheet :: worksheet where
  "example_sheet =
     [(1, [Some (VStr (js ''ProductID'')), Some (VStr (js ''ProductName'')),
           Some (VStr (js ''Quantity''))]),
      (2, [Some (VStr (js ''P1'')), Some (VStr (js ''Widget'')), Some (VNum 3)])]"

definition xlsx_job :: job where
  "xlsx_job =
     \<lparr>job_id = 3,
      job_data = \<lparr>filePath = js ''uploads/2.xlsx'', originalName = js ''products.xlsx'',
                  fileType = js ''excel'', timestamp = 0\<rparr>,
      created = 0, progress = 0, state = Waiting, returnvalue = None, failedReason = None,
      processedOn = None, finishedOn = None\<rparr>"

definition xlsx_world :: "workbook world" where
  "xlsx_world =
     \<lparr>files = [js ''uploads/2.xlsx'' \<mapsto> [(1, example_sheet)]], logged = [], emitted = []\<rparr>"

definition completed_job :: "nat \<Rightarrow> job" where
  "completed_job i =
     \<lparr>job_id = i,
      job_data = \<lparr>filePath = js ''uploads/f.csv'', originalName = js ''products.csv'',
                  fileType = js ''csv'', timestamp = 0\<rparr>,
      created = 0, progress = 100, state = Completed, returnvalue = Some initial_results,
      failedReason = None, processedOn = Some 1, finishedOn = Some 2\<rparr>"

definition example_jobs :: "job list" where
  "example_jobs = map completed_job [0..<25]"

definition empty_queue :: queue where
  "empty_queue = \<lparr>nextId = 0, getWaiting = [], getActive = [], getCompleted = [],
                   getFailed = [], getDelayed = []\<rparr>"

definition example_queues :: queues where
  "example_queues =
     \<lparr>csvQueue = empty_queue\<lparr>nextId := 25, getCompleted := example_jobs\<rparr>,
      excelQueue = empty_queue\<rparr>"

definition example_query :: "int \<Rightarrow> int \<Rightarrow> jobs_query" where
  "example_query p s =
     \<lparr>worker = Some (js ''csv''), status = Some (js ''completed''),
      page_param = Some p, pageSize_param = Some s\<rparr>"

definition txt_upload :: upload_file where
  "txt_upload = \<lparr>originalname = js ''notes.txt'', mimetype = js ''text/plain'',
                  path = js ''uploads/1.txt'', exceedsLimit = False\<rparr>"

definition xlsm_upload :: upload_file where
  "xlsm_upload = \<lparr>originalname = js ''macro.xlsm'',
                   mimetype = js ''application/vnd.ms-excel.sheet.macroEnabled.12'',
                   path = js ''uploads/2.xlsm'', exceedsLimit = False\<rparr>"

definition csv_upload :: upload_file where
  "csv_upload = \<lparr>originalname = js ''Products.CSV'', mimetype = js ''text/csv'',
                  path = js ''uploads/3.CSV'', exceedsLimit = False\<rparr>"

definition empty_queues :: queues where
  "empty_queues = \<lparr>csvQueue = empty_queue, excelQueue = empty_queue\<rparr>"

section \<open>Rounding to a double\<close>

lemma powi2_less_cancel: "(2::rat) powi a < 2 powi b \<Longrightarrow> a < b"
  using power_int_increasing [of b a "2::rat"] by (cases "a < b") auto

lemma powi2_le_cancel: "(2::rat) powi a \<le> 2 powi b \<Longrightarrow> a \<le> b"
  using power_int_strict_increasing [of b a "2::rat"] by (cases "a \<le> b") auto

lemma bitlen_powi_bounds:
  assumes "0 < (p::int)"
  shows "(2::rat) powi (bitlen p - 1) \<le> of_int p" and "of_int p < (2::rat) powi (bitlen p)"
proof -
  from assms have b1: "1 \<le> bitlen p"
    by (auto simp: bitlen_alt_def)
  have "(2::int) ^ nat (bitlen p - 1) \<le> p" and "p < 2 ^ nat (bitlen p)"
    using bitlen_bounds [OF assms] by auto
  then have "(of_int ((2::int) ^ nat (bitlen p - 1)) :: rat) \<le> of_int p"
    and "(of_int p :: rat) < of_int (2 ^ nat (bitlen p))"
    by (simp_all only: of_int_le_iff of_int_less_iff)
  then show "(2::rat) powi (bitlen p - 1) \<le> of_int p" and "of_int p < (2::rat) powi (bitlen p)"
    using b1 by (simp_all add: power_int_def)
qed

lemma binade_bounds:
  assumes "0 < x"
  shows "2 powi (binade x) \<le> x" and "x < 2 powi (binade x + 1)"
proof -
  obtain p q where pq: "quotient_of x = (p, q)" by (cases "quotient_of x")
  then have q: "0 < q" and x: "x = of_int p / of_int q"
    using quotient_of_denom_pos quotient_of_div by auto
  from assms x q have p: "0 < p"
    by (simp add: zero_less_divide_iff)
  define d where "d = bitlen p - bitlen q"
  have qpos: "(0::rat) < of_int q" using q by simp
  have lo: "2 powi (d - 1) \<le> x"
  proof -
    have "(2::rat) powi (d - 1) = 2 powi (bitlen p - 1) / 2 powi (bitlen q)"
      by (simp add: d_def power_int_diff)
    also have "\<dots> \<le> of_int p / 2 powi (bitlen q)"
      using bitlen_powi_bounds(1) [OF p] by (simp add: divide_right_mono)
    also have "\<dots> \<le> of_int p / of_int q"
      using bitlen_powi_bounds(2) [OF q] p qpos
      by (intro divide_left_mono) (auto simp: less_imp_le)
    finally show ?thesis using x by simp
  qed
  have hi: "x < 2 powi (d + 1)"
  proof -
    have "x = of_int p / of_int q" by (fact x)
    also have "\<dots> < 2 powi (bitlen p) / of_int q"
      using bitlen_powi_bounds(2) [OF p] qpos by (simp add: divide_strict_right_mono)
    also have "\<dots> \<le> 2 powi (bitlen p) / 2 powi (bitlen q - 1)"
      using bitlen_powi_bounds(1) [OF q] qpos
      by (intro divide_left_mono) auto
    also have "\<dots> = 2 powi (bitlen p - (bitlen q - 1))"
      by (simp only: power_int_diff [of "2::rat"] rel_simps simp_thms)
    also have "bitlen p - (bitlen q - 1) = d + 1"
      by (simp add: d_def)
    finally show ?thesis .
  qed
  have b: "binade x = (if 2 powi d \<le> x then d else d - 1)"
    by (simp add: binade_def pq d_def Let_def)
  show "2 powi (binade x) \<le> x"
    using lo b by auto
  show "x < 2 powi (binade x + 1)"
    using hi b by (auto simp: not_le)
qed

lemma binade_unique:
  assumes "2 powi e \<le> x" and "x < 2 powi (e + 1)"
  shows "binade x = e"
proof -
  have pos: "0 < x"
    using assms(1) by (meson less_le_trans zero_less_numeral zero_less_power_int)
  note b = binade_bounds [OF pos]
  have "(2::rat) powi e < 2 powi (binade x + 1)"
    using assms(1) b(2) by simp
  then have 1: "e < binade x + 1"
    by (rule powi2_less_cancel)
  have "(2::rat) powi (binade x) < 2 powi (e + 1)"
    using assms(2) b(1) by simp
  then have 2: "binade x < e + 1"
    by (rule powi2_less_cancel)
  from 1 2 show ?thesis by simp
qed

lemma binade_mono:
  assumes "0 < x" and "x \<le> y"
  shows "binade x \<le> binade y"
proof -
  have ypos: "0 < y" using assms by simp
  have "(2::rat) powi (binade x) \<le> x"
    using binade_bounds(1) [OF assms(1)] .
  also have "\<dots> \<le> y" by (fact assms(2))
  also have "\<dots> < 2 powi (binade y + 1)"
    using binade_bounds(2) [OF ypos] .
  finally have "binade x < binade y + 1"
    by (rule powi2_less_cancel)
  then show ?thesis by simp
qed

lemma round_even_lower: "\<lfloor>q\<rfloor> \<le> round_even q"
  by (simp add: round_even_def Let_def)

lemma round_even_upper: "round_even q \<le> \<lfloor>q\<rfloor> + 1"
  by (simp add: round_even_def Let_def)

lemma powi2_scale52: "(2::rat) powi b = 2 ^ 52 * 2 powi (b - 52)"
proof -
  have "(2::rat) powi (b - 52) = 2 powi b / 2 powi 52"
    by (rule power_int_diff) simp
  then show ?thesis by simp
qed

lemma powi2_scale53: "(2::rat) powi (b + 1) = 2 ^ 53 * 2 powi (b - 52)"
proof -
  have "(2::rat) powi (b + 1) = 2 powi b * 2"
    by (rule power_int_add_1) simp
  then show ?thesis
    by (simp add: powi2_scale52 [of b])
qed

lemma round_even_error: "\<bar>of_int (round_even q) - q\<bar> \<le> 1 / 2"
proof -
  have "of_int \<lfloor>q\<rfloor> \<le> q" and "q < of_int \<lfloor>q\<rfloor> + 1"
    by linarith+
  then show ?thesis
    by (auto simp add: round_even_def Let_def abs_le_iff)
qed

lemma round_even_of_int [simp]: "round_even (of_int m) = m"
  by (simp add: round_even_def)

lemma round_even_mono:
  assumes "q \<le> q'"
  shows "round_even q \<le> round_even q'"
proof (cases "\<lfloor>q\<rfloor> = \<lfloor>q'\<rfloor>")
  case True
  with assms show ?thesis
    by (auto simp add: round_even_def Let_def)
next
  case False
  with assms have "\<lfloor>q\<rfloor> < \<lfloor>q'\<rfloor>"
    using floor_mono [of q q'] by linarith
  then have "round_even q \<le> \<lfloor>q'\<rfloor>"
    using round_even_upper [of q] by linarith
  then show ?thesis
    using round_even_lower [of q'] by linarith
qed

lemma fl_pos_eq:
  assumes "0 < x"
  shows "fl x = of_int (round_even (x / 2 powi (binade x - 52))) * 2 powi (binade x - 52)"
  using assms by (simp add: fl_def Let_def)

lemma scaled_bounds:
  assumes "0 < x"
  shows "2 ^ 52 \<le> x / 2 powi (binade x - 52)" and "x / 2 powi (binade x - 52) \<le> 2 ^ 53"
proof -
  have u: "(0::rat) < 2 powi (binade x - 52)" by simp
  have a: "(2::rat) powi (binade x) = 2 ^ 52 * 2 powi (binade x - 52)"
    by (rule powi2_scale52)
  have b: "(2::rat) powi (binade x + 1) = 2 ^ 53 * 2 powi (binade x - 52)"
    by (rule powi2_scale53)
  show "2 ^ 52 \<le> x / 2 powi (binade x - 52)"
    using binade_bounds(1) [OF assms] u a by (simp add: pos_le_divide_eq)
  show "x / 2 powi (binade x - 52) \<le> 2 ^ 53"
    using binade_bounds(2) [OF assms] u b by (simp add: pos_divide_le_eq)
qed

lemma fl_binade_bounds:
  assumes "0 < x"
  shows "2 powi (binade x) \<le> fl x" and "fl x \<le> 2 powi (binade x + 1)"
proof -
  let ?u = "(2::rat) powi (binade x - 52)"
  have u: "0 < ?u" by simp
  have a: "(2::rat) powi (binade x) = 2 ^ 52 * ?u"
    by (rule powi2_scale52)
  have b: "(2::rat) powi (binade x + 1) = 2 ^ 53 * ?u"
    by (rule powi2_scale53)
  have "round_even (of_int (2 ^ 52)) \<le> round_even (x / ?u)"
    using scaled_bounds(1) [OF assms] by (intro round_even_mono) simp
  then have lo: "(2::rat) ^ 52 \<le> of_int (round_even (x / ?u))"
    by (simp only: round_even_of_int) (metis of_int_le_iff of_int_numeral of_int_power)
  have "round_even (x / ?u) \<le> round_even (of_int (2 ^ 53))"
    using scaled_bounds(2) [OF assms] by (intro round_even_mono) simp
  then have hi: "of_int (round_even (x / ?u)) \<le> (2::rat) ^ 53"
    by (simp only: round_even_of_int) (metis of_int_le_iff of_int_numeral of_int_power)
  show "2 powi (binade x) \<le> fl x"
    using lo u by (simp only: fl_pos_eq [OF assms] a) (rule mult_right_mono, simp_all)
  show "fl x \<le> 2 powi (binade x + 1)"
    using hi u by (simp only: fl_pos_eq [OF assms] b) (rule mult_right_mono, simp_all)
qed

lemma fl_pos: "0 < x \<Longrightarrow> 0 < fl x"
  using fl_binade_bounds(1) [of x]
  by (meson less_le_trans zero_less_numeral zero_less_power_int)

lemma fl_mono:
  assumes "0 < x" and "x \<le> y"
  shows "fl x \<le> fl y"
proof (cases "binade x = binade y")
  case True
  have ypos: "0 < y" using assms by simp
  let ?u = "(2::rat) powi (binade y - 52)"
  have "x / ?u \<le> y / ?u"
    using assms(2) by (simp add: divide_right_mono)
  then have "round_even (x / ?u) \<le> round_even (y / ?u)"
    by (rule round_even_mono)
  then have "(of_int (round_even (x / ?u)) :: rat) * ?u \<le> of_int (round_even (y / ?u)) * ?u"
    by (intro mult_right_mono) simp_all
  then show ?thesis
    by (simp only: fl_pos_eq [OF assms(1)] fl_pos_eq [OF ypos] True)
next
  case False
  have ypos: "0 < y" using assms by simp
  from False binade_mono [OF assms] have "binade x + 1 \<le> binade y"
    by simp
  then have "(2::rat) powi (binade x + 1) \<le> 2 powi (binade y)"
    by (intro power_int_increasing) simp_all
  then show ?thesis
    using fl_binade_bounds(2) [OF assms(1)] fl_binade_bounds(1) [OF ypos] by linarith
qed

lemma fl_error:
  assumes "0 < x"
  shows "\<bar>fl x - x\<bar> \<le> x / 2 ^ 53"
proof -
  let ?u = "(2::rat) powi (binade x - 52)"
  have u: "0 < ?u" by simp
  have "fl x - x = (of_int (round_even (x / ?u)) - x / ?u) * ?u"
    using u by (simp add: fl_pos_eq [OF assms] algebra_simps)
  then have "\<bar>fl x - x\<bar> = \<bar>of_int (round_even (x / ?u)) - x / ?u\<bar> * ?u"
    using u by (simp add: abs_mult)
  also have "\<dots> \<le> (1 / 2) * ?u"
    using round_even_error [of "x / ?u"] u by (intro mult_right_mono) simp_all
  also have "\<dots> = 2 powi (binade x) / 2 ^ 53"
    by (simp add: powi2_scale52 [of "binade x"])
  also have "\<dots> \<le> x / 2 ^ 53"
    using binade_bounds(1) [OF assms] by (simp add: divide_right_mono)
  finally show ?thesis .
qed

lemma fl_representable:
  assumes "0 < m" and "m < 2 ^ 53"
  shows "fl (of_int m * 2 powi e) = of_int m * 2 powi e"
proof -
  let ?x = "of_int m * (2::rat) powi e"
  have xpos: "0 < ?x" using assms(1) by simp
  have b1: "1 \<le> bitlen m" using assms(1) by (auto simp: bitlen_alt_def)
  have "(2::rat) powi (bitlen m - 1) < 2 powi 53"
  proof -
    have "(2::rat) powi (bitlen m - 1) \<le> of_int m"
      using bitlen_powi_bounds(1) [OF assms(1)] .
    also have "\<dots> < of_int (2 ^ 53)"
      using assms(2) by (simp only: of_int_less_iff)
    finally show ?thesis by simp
  qed
  then have b53: "bitlen m \<le> 53"
    using powi2_less_cancel by fastforce
  have lo: "2 powi (bitlen m - 1 + e) \<le> ?x"
    using bitlen_powi_bounds(1) [OF assms(1)]
    by (simp add: power_int_add mult_right_mono)
  have hi: "?x < 2 powi (bitlen m - 1 + e + 1)"
  proof -
    have "?x < 2 powi (bitlen m) * 2 powi e"
      using bitlen_powi_bounds(2) [OF assms(1)] by (simp add: mult_strict_right_mono)
    also have "\<dots> = 2 powi (bitlen m + e)"
      by (simp add: power_int_add)
    finally show ?thesis by (simp add: algebra_simps)
  qed
  have bin: "binade ?x = bitlen m - 1 + e"
    using binade_unique [OF lo hi] .
  define k where "k = nat (53 - bitlen m)"
  have k: "int k = 53 - bitlen m" using b53 by (simp add: k_def)
  have "e - (binade ?x - 52) = int k"
    using bin k by simp
  then have "(2::rat) powi e / 2 powi (binade ?x - 52) = 2 ^ k"
    by (metis power_int_diff power_int_of_nat zero_neq_numeral)
  moreover have "?x / 2 powi (binade ?x - 52) = of_int m * (2 powi e / 2 powi (binade ?x - 52))"
    by simp
  ultimately have sc: "?x / 2 powi (binade ?x - 52) = of_int (m * 2 ^ k)"
    by (simp only: of_int_mult of_int_power of_int_numeral)
  have "fl ?x = of_int (m * 2 ^ k) * 2 powi (binade ?x - 52)"
    by (simp only: fl_pos_eq [OF xpos] sc round_even_of_int)
  also have "\<dots> = ?x / 2 powi (binade ?x - 52) * 2 powi (binade ?x - 52)"
    by (simp only: sc)
  also have "\<dots> = ?x" by simp
  finally show ?thesis .
qed

lemma fl_of_int:
  assumes "0 \<le> m" and "m < 2 ^ 53"
  shows "fl (of_int m) = of_int m"
proof (cases "m = 0")
  case True
  then show ?thesis by (simp add: fl_def)
next
  case False
  with assms have "0 < m" by simp
  from fl_representable [OF this assms(2), of 0] show ?thesis by simp
qed

subsection \<open>Progress values and page counts\<close>

lemma js_progress_total:
  assumes "0 < t"
  shows "js_progress t t = 100"
proof -
  have "(of_nat t / of_nat t :: rat) = 1" using assms by simp
  moreover have "fl 1 = 1" using fl_of_int [of 1] by simp
  moreover have "fl 100 = 100" using fl_of_int [of 100] by simp
  ultimately show ?thesis by (simp add: js_progress_def)
qed

lemma js_progress_mono:
  assumes "0 < k" and "k \<le> k'" and "0 < t"
  shows "js_progress k t \<le> js_progress k' t"
proof -
  have pos: "(0::rat) < of_nat k / of_nat t" using assms by simp
  have "(of_nat k / of_nat t :: rat) \<le> of_nat k' / of_nat t"
    using assms by (simp add: divide_right_mono)
  then have "fl (of_nat k / of_nat t) \<le> fl (of_nat k' / of_nat t)"
    using pos by (rule fl_mono [rotated])
  then have "fl (of_nat k / of_nat t) * 100 \<le> fl (of_nat k' / of_nat t) * 100"
    by simp
  moreover have "0 < fl (of_nat k / of_nat t) * 100"
    using fl_pos [OF pos] by simp
  ultimately have "fl (fl (of_nat k / of_nat t) * 100) \<le> fl (fl (of_nat k' / of_nat t) * 100)"
    by (rule fl_mono [rotated])
  then show ?thesis
    unfolding js_progress_def by (intro nat_mono floor_mono)
qed

lemma js_progress_below:
  assumes "0 < k" and "k < t" and "t \<le> 2 ^ 53"
  shows "js_progress k t < 100"
proof -
  have tpos: "(0::rat) < of_nat t" using assms by simp
  have pos: "(0::rat) < of_nat k / of_nat t" using assms by simp
  have "(of_nat k :: rat) \<le> of_nat t - 1"
    using assms(2) by (metis Suc_leI of_nat_Suc of_nat_le_iff le_diff_eq add.commute)
  then have "(of_nat k / of_nat t :: rat) \<le> (of_nat t - 1) / of_nat t"
    using tpos by (simp add: divide_right_mono)
  also have "\<dots> = 1 - 1 / of_nat t"
    using tpos by (simp add: diff_divide_distrib)
  also have "\<dots> \<le> 1 - 1 / 2 ^ 53"
  proof -
    have "(of_nat t :: rat) \<le> of_nat (2 ^ 53)"
      using assms(3) by (simp only: of_nat_le_iff)
    then have "(1 :: rat) / 2 ^ 53 \<le> 1 / of_nat t"
      using tpos by (simp add: frac_le)
    then show ?thesis by simp
  qed
  finally have "fl (of_nat k / of_nat t) \<le> fl (1 - 1 / 2 ^ 53)"
    using pos by (intro fl_mono)
  also have "fl (1 - 1 / 2 ^ 53) = 1 - 1 / 2 ^ 53"
    by code_simp
  finally have "fl (of_nat k / of_nat t) * 100 \<le> (1 - 1 / 2 ^ 53) * 100"
    by simp
  moreover have "0 < fl (of_nat k / of_nat t) * 100"
    using fl_pos [OF pos] by simp
  ultimately have "fl (fl (of_nat k / of_nat t) * 100) \<le> fl ((1 - 1 / 2 ^ 53) * 100)"
    by (rule fl_mono [rotated])
  also have "\<dots> < 100"
    by code_simp
  finally have "fl (fl (of_nat k / of_nat t) * 100) < of_int 100"
    by simp
  then have "\<lfloor>fl (fl (of_nat k / of_nat t) * 100)\<rfloor> < 100"
    by (simp only: floor_less_iff)
  then show ?thesis
    unfolding js_progress_def by arith
qed

lemma progress_values_sorted:
  "sorted (map (\<lambda>i. js_progress (Suc i) n) [0..<n])"
  unfolding sorted_iff_nth_mono
proof (intro allI impI)
  fix i j
  assume ij: "i \<le> j" and j: "j < length (map (\<lambda>i. js_progress (Suc i) n) [0..<n])"
  then have "j < n" and "i < n" by simp_all
  moreover have "js_progress (Suc i) n \<le> js_progress (Suc j) n"
    using ij \<open>j < n\<close> by (intro js_progress_mono) simp_all
  ultimately show "map (\<lambda>i. js_progress (Suc i) n) [0..<n] ! i
      \<le> map (\<lambda>i. js_progress (Suc i) n) [0..<n] ! j"
    by simp
qed

lemma progress_hundred_iff:
  assumes "i < n" and "n \<le> 2 ^ 53"
  shows "(js_progress (Suc i) n = 100) = (Suc i = n)"
proof (cases "Suc i = n")
  case True
  then show ?thesis using js_progress_total [of n] by auto
next
  case False
  with assms have "Suc i < n" by simp
  from js_progress_below [OF _ this assms(2)] False show ?thesis by simp
qed

lemma totalPages_exact:
  assumes "n < 2 ^ 53" and "1 \<le> s"
  shows "totalPages_of n s = \<lceil>(of_nat n / of_int s :: rat)\<rceil>"
proof (cases "n = 0")
  case True
  then show ?thesis by (simp add: totalPages_of_def fl_def)
next
  case False
  let ?x = "of_nat n / of_int s :: rat"
  define c where "c = \<lceil>?x\<rceil>"
  have spos: "(0::rat) < of_int s" using assms(2) by simp
  have xpos: "0 < ?x" using False spos by simp
  have cx: "?x \<le> of_int c" and xc: "of_int c - 1 < ?x"
    unfolding c_def by linarith+
  have "(0::rat) < of_int c" using xpos cx by linarith
  then have cpos: "0 < c" by simp
  have xn: "?x \<le> of_nat n"
  proof -
    have "?x \<le> of_nat n / 1"
      using assms(2) by (intro divide_left_mono) simp_all
    then show ?thesis by simp
  qed
  have "c \<le> int n"
    unfolding c_def using xn by (simp add: ceiling_le_iff)
  moreover have "int n < int (2 ^ 53)"
    using assms(1) by (simp only: of_nat_less_iff)
  then have "int n < 2 ^ 53" by simp
  ultimately have c53: "c < 2 ^ 53" by linarith
  have up: "fl ?x \<le> of_int c"
  proof -
    have "fl ?x \<le> fl (of_int c)"
      using xpos cx by (rule fl_mono)
    then show ?thesis
      using fl_of_int [of c] cpos c53 by simp
  qed
  have lo: "of_int c - 1 < fl ?x"
  proof -
    have n53: "(of_nat n :: rat) < 2 ^ 53"
      using assms(1) by (metis of_nat_less_iff of_nat_numeral of_nat_power)
    have "(of_int c - 1) * of_int s < (of_nat n :: rat)"
      using xc spos by (simp add: pos_less_divide_eq)
    then have "(of_int ((c - 1) * s) :: rat) < of_int (int n)"
      by simp
    then have "(c - 1) * s < int n"
      by (simp only: of_int_less_iff)
    then have "(c - 1) * s + 1 \<le> int n" by simp
    then have "(of_int ((c - 1) * s + 1) :: rat) \<le> of_int (int n)"
      by (simp only: of_int_le_iff)
    then have gap: "(of_int c - 1) * of_int s + 1 \<le> (of_nat n :: rat)"
      by simp
    have "?x / 2 ^ 53 < 1 / of_int s"
    proof -
      have "?x / 2 ^ 53 = (of_nat n / 2 ^ 53) / of_int s" by simp
      also have "\<dots> < 1 / of_int s"
        using n53 spos by (intro divide_strict_right_mono) simp_all
      finally show ?thesis .
    qed
    moreover have "?x - ?x / 2 ^ 53 \<le> fl ?x"
      using fl_error [OF xpos] by (simp add: abs_le_iff)
    moreover have "of_int c - 1 + 1 / of_int s \<le> ?x"
    proof -
      have "of_int c - 1 + 1 / of_int s = ((of_int c - 1) * of_int s + 1) / (of_int s :: rat)"
        using spos by (simp add: field_simps)
      also have "\<dots> \<le> ?x"
        using gap spos by (intro divide_right_mono) simp_all
      finally show ?thesis .
    qed
    ultimately show ?thesis by linarith
  qed
  have "\<lceil>fl ?x\<rceil> = c"
    using lo up by (intro ceiling_unique) simp_all
  then show ?thesis by (simp add: totalPages_of_def c_def)
qed

section \<open>The record loop\<close>

lemma collect_statistics_fold:
  "processed (fold (\<lambda>(field, v) res'.
             case v of VArr vals \<Rightarrow> res'\<lparr>summary := field_summary (summary res') field vals\<rparr>
                     | _ \<Rightarrow> res') xs res) = processed res
   \<and> failed (fold (\<lambda>(field, v) res'.
             case v of VArr vals \<Rightarrow> res'\<lparr>summary := field_summary (summary res') field vals\<rparr>
                     | _ \<Rightarrow> res') xs res) = failed res
   \<and> total (fold (\<lambda>(field, v) res'.
             case v of VArr vals \<Rightarrow> res'\<lparr>summary := field_summary (summary res') field vals\<rparr>
                     | _ \<Rightarrow> res') xs res) = total res
   \<and> records (fold (\<lambda>(field, v) res'.
             case v of VArr vals \<Rightarrow> res'\<lparr>summary := field_summary (summary res') field vals\<rparr>
                     | _ \<Rightarrow> res') xs res) = records res"
  by (induction xs arbitrary: res) (auto split: jsval.splits)

lemma collect_statistics_counters [simp]:
  "processed (collect_statistics pr res) = processed res"
  "failed (collect_statistics pr res) = failed res"
  "total (collect_statistics pr res) = total res"
  "records (collect_statistics pr res) = records res"
  by (simp_all add: collect_statistics_def collect_statistics_fold)

lemma record_step_fault:
  assumes "faults r = Some e"
  shows "\<exists>entry. record_step (processRecord mvf pmv faults) r (res, job, w) =
     (res\<lparr>failed := failed res + 1\<rparr>,
      job\<lparr>progress := js_progress (processed res + failed res + 1) (total res)\<rparr>,
      w\<lparr>logged := logged w @ [entry, \<lparr>lvl = Err, msg = js ''Failed to process record'', meta = MetaFailedRecord e r\<rparr>],
        emitted := emitted w @ [js_progress (processed res + failed res + 1) (total res)]\<rparr>)"
  using assms by (auto simp add: record_step_def processRecord_def logger_def Let_def)

lemma record_step_ok:
  assumes "faults r = None"
  shows "\<exists>pr entry. record_step (processRecord mvf pmv faults) r (res, job, w) =
     (collect_statistics pr (res\<lparr>processed := processed res + 1, records := records res @ [pr]\<rparr>),
      job\<lparr>progress := js_progress (processed res + failed res + 1) (total res)\<rparr>,
      w\<lparr>logged := logged w @ [entry],
        emitted := emitted w @ [js_progress (processed res + failed res + 1) (total res)]\<rparr>)
      \<and> success pr"
  using assms by (auto simp add: record_step_def processRecord_def logger_def Let_def)

lemma record_step_facts:
  assumes "record_step (processRecord mvf pmv faults) r (res, job, w) = (res1, job1, w1)"
  shows "processed res1 = processed res + (if faults r = None then 1 else 0)"
    and "failed res1 = failed res + (if faults r = None then 0 else 1)"
    and "total res1 = total res"
    and "length (records res1) = length (records res) + (if faults r = None then 1 else 0)"
    and "job1 = job\<lparr>progress := js_progress (processed res + failed res + 1) (total res)\<rparr>"
    and "files w1 = files w"
    and "emitted w1 = emitted w @ [js_progress (processed res + failed res + 1) (total res)]"
    and "\<exists>new. logged w1 = logged w @ new
           \<and> (\<forall>e. faults r = Some e \<longrightarrow>
                \<lparr>lvl = Err, msg = js ''Failed to process record'', meta = MetaFailedRecord e r\<rparr> \<in> set new)"
proof -
  show "processed res1 = processed res + (if faults r = None then 1 else 0)"
    using assms record_step_ok [of faults r mvf pmv res job w]
      record_step_fault [of faults r _ mvf pmv res job w]
    by (cases "faults r") auto
  show "failed res1 = failed res + (if faults r = None then 0 else 1)"
    using assms record_step_ok [of faults r mvf pmv res job w]
      record_step_fault [of faults r _ mvf pmv res job w]
    by (cases "faults r") auto
  show "total res1 = total res"
    using assms record_step_ok [of faults r mvf pmv res job w]
      record_step_fault [of faults r _ mvf pmv res job w]
    by (cases "faults r") auto
  show "length (records res1) = length (records res) + (if faults r = None then 1 else 0)"
    using assms record_step_ok [of faults r mvf pmv res job w]
      record_step_fault [of faults r _ mvf pmv res job w]
    by (cases "faults r") auto
  show "job1 = job\<lparr>progress := js_progress (processed res + failed res + 1) (total res)\<rparr>"
    using assms record_step_ok [of faults r mvf pmv res job w]
      record_step_fault [of faults r _ mvf pmv res job w]
    by (cases "faults r") auto
  show "files w1 = files w"
    using assms record_step_ok [of faults r mvf pmv res job w]
      record_step_fault [of faults r _ mvf pmv res job w]
    by (cases "faults r") auto
  show "emitted w1 = emitted w @ [js_progress (processed res + failed res + 1) (total res)]"
    using assms record_step_ok [of faults r mvf pmv res job w]
      record_step_fault [of faults r _ mvf pmv res job w]
    by (cases "faults r") auto
  show "\<exists>new. logged w1 = logged w @ new
           \<and> (\<forall>e. faults r = Some e \<longrightarrow>
                \<lparr>lvl = Err, msg = js ''Failed to process record'', meta = MetaFailedRecord e r\<rparr> \<in> set new)"
  proof (cases "faults r")
    case None
    then show ?thesis
      using assms record_step_ok [of faults r mvf pmv res job w] by auto
  next
    case (Some e)
    then show ?thesis
      using assms record_step_fault [of faults r e mvf pmv res job w] by auto
  qed
qed

lemma record_loop_counters:
  "record_loop (processRecord mvf pmv faults) recs (res, job, w) = (res', job', w') \<Longrightarrow>
     processed res' = processed res + length (filter (\<lambda>r. faults r = None) recs)
   \<and> failed res' = failed res + length (filter (\<lambda>r. faults r \<noteq> None) recs)
   \<and> total res' = total res
   \<and> length (records res') = length (records res) + length (filter (\<lambda>r. faults r = None) recs)
   \<and> files w' = files w"
proof (induction recs arbitrary: res job w)
  case Nil
  then show ?case by simp
next
  case (Cons r recs)
  obtain res1 job1 w1 where
    step: "record_step (processRecord mvf pmv faults) r (res, job, w) = (res1, job1, w1)"
    by (metis prod_cases3)
  with Cons.prems have
    "record_loop (processRecord mvf pmv faults) recs (res1, job1, w1) = (res', job', w')"
    by simp
  from Cons.IH [OF this] record_step_facts(1-4,6) [OF step]
  show ?case by auto
qed

lemma record_loop_emitted:
  "record_loop (processRecord mvf pmv faults) recs (res, job, w) = (res', job', w') \<Longrightarrow>
     emitted w' = emitted w @
       map (\<lambda>i. js_progress (processed res + failed res + Suc i) (total res)) [0..<length recs]
   \<and> job' = (if recs = [] then job
             else job\<lparr>progress := js_progress (processed res + failed res + length recs) (total res)\<rparr>)"
proof (induction recs arbitrary: res job w)
  case Nil
  then show ?case by simp
next
  case (Cons r recs)
  obtain res1 job1 w1 where
    step: "record_step (processRecord mvf pmv faults) r (res, job, w) = (res1, job1, w1)"
    by (metis prod_cases3)
  with Cons.prems have loop:
    "record_loop (processRecord mvf pmv faults) recs (res1, job1, w1) = (res', job', w')"
    by simp
  have sum1: "processed res1 + failed res1 = Suc (processed res + failed res)"
    using record_step_facts(1,2) [OF step] by auto
  show ?case
    using Cons.IH [OF loop] record_step_facts(3,5,7) [OF step] sum1
    by (auto simp add: map_upt_Suc simp del: upt_Suc)
qed

lemma record_loop_logged:
  "record_loop (processRecord mvf pmv faults) recs (res, job, w) = (res', job', w') \<Longrightarrow>
     \<exists>new. logged w' = logged w @ new
       \<and> (\<forall>r e. r \<in> set recs \<and> faults r = Some e \<longrightarrow>
             \<lparr>lvl = Err, msg = js ''Failed to process record'', meta = MetaFailedRecord e r\<rparr> \<in> set new)"
proof (induction recs arbitrary: res job w)
  case Nil
  then show ?case by simp
next
  case (Cons r recs)
  obtain res1 job1 w1 where
    step: "record_step (processRecord mvf pmv faults) r (res, job, w) = (res1, job1, w1)"
    by (metis prod_cases3)
  with Cons.prems have loop:
    "record_loop (processRecord mvf pmv faults) recs (res1, job1, w1) = (res', job', w')"
    by simp
  from record_step_facts(8) [OF step] obtain new1 where
    n1: "logged w1 = logged w @ new1"
      "\<forall>e. faults r = Some e \<longrightarrow>
         \<lparr>lvl = Err, msg = js ''Failed to process record'', meta = MetaFailedRecord e r\<rparr> \<in> set new1"
    by blast
  from Cons.IH [OF loop] obtain new2 where
    n2: "logged w' = logged w1 @ new2"
      "\<forall>x e. x \<in> set recs \<and> faults x = Some e \<longrightarrow>
         \<lparr>lvl = Err, msg = js ''Failed to process record'', meta = MetaFailedRecord e x\<rparr> \<in> set new2"
    by blast
  have "logged w' = logged w @ (new1 @ new2)"
    using n1(1) n2(1) by simp
  moreover have "\<forall>x e. x \<in> set (r # recs) \<and> faults x = Some e \<longrightarrow>
         \<lparr>lvl = Err, msg = js ''Failed to process record'', meta = MetaFailedRecord e x\<rparr> \<in> set (new1 @ new2)"
    using n1(2) n2(2) by auto
  ultimately show ?case by blast
qed

subsection \<open>The processor and the job around it\<close>

lemma parseCSV_fst: "fst (parseCSV csvParser fs p lg) = fst (parseCSV csvParser fs p lg')"
  by (simp add: parseCSV_def split: option.splits sum.splits)

lemma parseExcel_fst: "fst (parseExcel readFile fs p lg) = fst (parseExcel readFile fs p lg')"
  by (simp add: parseExcel_def Let_def split: option.splits sum.splits)

lemma parseCSV_file: "fst (parseCSV csvParser fs p lg) = Inr recs \<Longrightarrow> fs p \<noteq> None"
  by (auto simp add: parseCSV_def split: option.splits sum.splits)

lemma parseExcel_file: "fst (parseExcel readFile fs p lg) = Inr recs \<Longrightarrow> fs p \<noteq> None"
  by (auto simp add: parseExcel_def Let_def split: option.splits sum.splits)

lemma csv_parse_any:
  "fst (parseCSV csvParser fs p lg) = r \<Longrightarrow> fst (parseCSV csvParser fs p lg') = r"
  using parseCSV_fst by metis

lemma excel_parse_any:
  "fst (parseExcel readFile fs p lg) = r \<Longrightarrow> fst (parseExcel readFile fs p lg') = r"
  using parseExcel_fst by metis

lemma process_parse_failed:
  assumes "fst (parse (files w) (filePath (job_data job))
                 (logger Info (js ''Starting to process file: '' @ filePath (job_data job)) NoMeta (logged w))) = Inl e"
  shows "\<exists>lg. process parse proc job w = (Some e, initial_results, job, w\<lparr>logged := lg\<rparr>)"
  using assms by (auto simp add: process_def Let_def split: prod.splits sum.splits)

lemma process_parse_ok:
  assumes parse: "fst (parse (files w) (filePath (job_data job))
                 (logger Info (js ''Starting to process file: '' @ filePath (job_data job)) NoMeta (logged w))) = Inr recs"
    and exists: "files w (filePath (job_data job)) \<noteq> None"
  shows "\<exists>res job' w'.
           process parse (processRecord mvf pmv faults) job w = (None, res, job', w')
         \<and> processed res = length (filter (\<lambda>r. faults r = None) recs)
         \<and> failed res = length (filter (\<lambda>r. faults r \<noteq> None) recs)
         \<and> total res = length recs
         \<and> length (records res) = length (filter (\<lambda>r. faults r = None) recs)
         \<and> files w' = (files w)(filePath (job_data job) := None)
         \<and> emitted w' = emitted w @ map (\<lambda>i. js_progress (Suc i) (length recs)) [0..<length recs]
         \<and> job' = (if recs = [] then job else job\<lparr>progress := js_progress (length recs) (length recs)\<rparr>)
         \<and> (\<forall>r e. r \<in> set recs \<and> faults r = Some e \<longrightarrow>
               \<lparr>lvl = Err, msg = js ''Failed to process record'', meta = MetaFailedRecord e r\<rparr> \<in> set (logged w'))"
proof -
  define path where "path = filePath (job_data job)"
  define lg0 where "lg0 = logger Info (js ''Starting to process file: '' @ path) NoMeta (logged w)"
  obtain lg1 where p: "parse (files w) path lg0 = (Inr recs, lg1)"
    using parse unfolding path_def lg0_def by (metis prod.collapse)
  obtain res job' w1 where loop:
    "record_loop (processRecord mvf pmv faults) recs
       (initial_results\<lparr>total := length recs\<rparr>, job, w\<lparr>logged := lg1\<rparr>) = (res, job', w1)"
    by (metis prod_cases3)
  note c = record_loop_counters [OF loop]
  note e = record_loop_emitted [OF loop]
  from record_loop_logged [OF loop] obtain new where
    l: "logged w1 = lg1 @ new"
      "\<forall>r e. r \<in> set recs \<and> faults r = Some e \<longrightarrow>
         \<lparr>lvl = Err, msg = js ''Failed to process record'', meta = MetaFailedRecord e r\<rparr> \<in> set new"
    by auto
  have f1: "files w1 path \<noteq> None"
    using c exists by (simp add: path_def)
  let ?w' = "w1\<lparr>files := (files w1)(path := None),
              logged := logger Info (js ''Job '' @ show_int (int (job_id job)) @ js '' completed'')
                          (MetaResults res) (logged w1)\<rparr>"
  have run: "process parse (processRecord mvf pmv faults) job w = (None, res, job', ?w')"
    using p loop f1 by (simp add: process_def Let_def path_def [symmetric] lg0_def [symmetric] unlinkSync_def)
  have "\<forall>r e. r \<in> set recs \<and> faults r = Some e \<longrightarrow>
         \<lparr>lvl = Err, msg = js ''Failed to process record'', meta = MetaFailedRecord e r\<rparr> \<in> set (logged ?w')"
    using l by (auto simp add: logger_def)
  then show ?thesis
    using run c e by (simp add: initial_results_def path_def [symmetric])
qed

lemma run_job_parse_ok:
  assumes parse: "\<And>lg. fst (parse (files w) (filePath (job_data job)) lg) = Inr recs"
    and exists: "files w (filePath (job_data job)) \<noteq> None"
  shows "\<exists>res job' w'.
           run_job (process parse (processRecord mvf pmv faults)) t0 t1 job w = (job', w')
         \<and> state job' = Completed \<and> returnvalue job' = Some res
         \<and> failedReason job' = failedReason job
         \<and> job_id job' = job_id job \<and> job_data job' = job_data job
         \<and> progress job' = (if recs = [] then progress job else js_progress (length recs) (length recs))
         \<and> processed res = length (filter (\<lambda>r. faults r = None) recs)
         \<and> failed res = length (filter (\<lambda>r. faults r \<noteq> None) recs)
         \<and> total res = length recs
         \<and> length (records res) = length (filter (\<lambda>r. faults r = None) recs)
         \<and> files w' = (files w)(filePath (job_data job) := None)
         \<and> emitted w' = emitted w @ map (\<lambda>i. js_progress (Suc i) (length recs)) [0..<length recs]
         \<and> (\<forall>r e. r \<in> set recs \<and> faults r = Some e \<longrightarrow>
               \<lparr>lvl = Err, msg = js ''Failed to process record'', meta = MetaFailedRecord e r\<rparr> \<in> set (logged w'))
         \<and> (\<exists>j1. process parse (processRecord mvf pmv faults)
                    (job\<lparr>state := Active, processedOn := Some t0\<rparr>) w = (None, res, j1, w')
                  \<and> state j1 = Active)"
proof -
  let ?job = "job\<lparr>state := Active, processedOn := Some t0\<rparr>"
  have p: "fst (parse (files w) (filePath (job_data ?job))
             (logger Info (js ''Starting to process file: '' @ filePath (job_data ?job)) NoMeta (logged w))) = Inr recs"
    using parse by simp
  have e: "files w (filePath (job_data ?job)) \<noteq> None"
    using exists by simp
  from process_parse_ok [where parse = parse and w = w and job = ?job and recs = recs
      and mvf = mvf and pmv = pmv and faults = faults, OF p e]
  obtain res job1 w1 where r:
    "process parse (processRecord mvf pmv faults) ?job w = (None, res, job1, w1)"
    "processed res = length (filter (\<lambda>r. faults r = None) recs)"
    "failed res = length (filter (\<lambda>r. faults r \<noteq> None) recs)"
    "total res = length recs"
    "length (records res) = length (filter (\<lambda>r. faults r = None) recs)"
    "files w1 = (files w)(filePath (job_data job) := None)"
    "emitted w1 = emitted w @ map (\<lambda>i. js_progress (Suc i) (length recs)) [0..<length recs]"
    "job1 = (if recs = [] then ?job else ?job\<lparr>progress := js_progress (length recs) (length recs)\<rparr>)"
    "\<forall>r e. r \<in> set recs \<and> faults r = Some e \<longrightarrow>
       \<lparr>lvl = Err, msg = js ''Failed to process record'', meta = MetaFailedRecord e r\<rparr> \<in> set (logged w1)"
    by auto
  have run: "run_job (process parse (processRecord mvf pmv faults)) t0 t1 job w =
          (job1\<lparr>state := Completed, returnvalue := Some res, finishedOn := Some t1\<rparr>, w1)"
    using r(1) by (simp add: run_job_def)
  have act: "state job1 = Active"
    using r(8) by simp
  show ?thesis
    using run r(1-9) act by simp
qed

lemma run_job_parse_failed:
  assumes parse: "\<And>lg. fst (parse (files w) (filePath (job_data job)) lg) = Inl e"
  shows "\<exists>job' w'. run_job (process parse proc) t0 t1 job w = (job', w')
           \<and> state job' = Failed \<and> failedReason job' = Some (message e)
           \<and> returnvalue job' = returnvalue job
           \<and> job_id job' = job_id job \<and> job_data job' = job_data job \<and> progress job' = progress job
           \<and> created job' = created job
           \<and> processedOn job' = Some t0 \<and> finishedOn job' = Some t1
           \<and> files w' = files w \<and> emitted w' = emitted w
           \<and> (\<exists>lg. process parse proc (job\<lparr>state := Active, processedOn := Some t0\<rparr>) w =
                  (Some e, \<lparr>processed = 0, failed = 0, total = 0, records = [], summary = []\<rparr>,
                   job\<lparr>state := Active, processedOn := Some t0\<rparr>, w\<lparr>logged := lg\<rparr>))"
proof -
  let ?job = "job\<lparr>state := Active, processedOn := Some t0\<rparr>"
  have p: "fst (parse (files w) (filePath (job_data ?job))
             (logger Info (js ''Starting to process file: '' @ filePath (job_data ?job)) NoMeta (logged w))) = Inl e"
    using parse by simp
  from process_parse_failed [where parse = parse and w = w and job = ?job and e = e
      and proc = proc, OF p]
  obtain lg where r: "process parse proc ?job w = (Some e, initial_results, ?job, w\<lparr>logged := lg\<rparr>)"
    by auto
  have run: "run_job (process parse proc) t0 t1 job w =
          (?job\<lparr>state := Failed, failedReason := Some (message e), finishedOn := Some t1\<rparr>, w\<lparr>logged := lg\<rparr>)"
    using r by (simp add: run_job_def)
  show ?thesis
    using run r by (auto simp add: initial_results_def)
qed

lemma worker_parse_ok:
  assumes "fst (parseCSV csvParser (files w) (filePath (job_data job)) lg) = Inr recs
             \<and> run_job (csv_process csvParser faults) t0 t1 job w = (job', w')
           \<or> fst (parseExcel readFile (files w) (filePath (job_data job)) lg) = Inr recs
             \<and> run_job (excel_process readFile faults) t0 t1 job w = (job', w')"
  shows "\<exists>res.
           state job' = Completed \<and> returnvalue job' = Some res
         \<and> failedReason job' = failedReason job
         \<and> job_id job' = job_id job \<and> job_data job' = job_data job
         \<and> progress job' = (if recs = [] then progress job else js_progress (length recs) (length recs))
         \<and> processed res = length (filter (\<lambda>r. faults r = None) recs)
         \<and> failed res = length (filter (\<lambda>r. faults r \<noteq> None) recs)
         \<and> total res = length recs
         \<and> length (records res) = length (filter (\<lambda>r. faults r = None) recs)
         \<and> files w' = (files w)(filePath (job_data job) := None)
         \<and> emitted w' = emitted w @ map (\<lambda>i. js_progress (Suc i) (length recs)) [0..<length recs]
         \<and> (\<forall>r e. r \<in> set recs \<and> faults r = Some e \<longrightarrow>
               \<lparr>lvl = Err, msg = js ''Failed to process record'', meta = MetaFailedRecord e r\<rparr> \<in> set (logged w'))
         \<and> (\<exists>j1. (csv_process csvParser faults (job\<lparr>state := Active, processedOn := Some t0\<rparr>) w
                      = (None, res, j1, w')
                   \<or> excel_process readFile faults (job\<lparr>state := Active, processedOn := Some t0\<rparr>) w
                      = (None, res, j1, w'))
                  \<and> state j1 = Active)"
  using assms
proof
  assume a: "fst (parseCSV csvParser (files w) (filePath (job_data job)) lg) = Inr recs
             \<and> run_job (csv_process csvParser faults) t0 t1 job w = (job', w')"
  have p: "\<And>lg'. fst (parseCSV csvParser (files w) (filePath (job_data job)) lg') = Inr recs"
    using a csv_parse_any by blast
  have ex: "files w (filePath (job_data job)) \<noteq> None"
    using a parseCSV_file by blast
  from run_job_parse_ok [where parse = "parseCSV csvParser" and w = w and job = job and recs = recs
      and mvf = "[js ''Tags'', js ''Categories'', js ''Attributes'']"
      and pmv = csv_parseMultiValueField and faults = faults and ?t0.0 = t0 and ?t1.0 = t1, OF p ex] a
  show ?thesis
    by (auto simp add: csv_process_def csv_processRecord_def)
next
  assume a: "fst (parseExcel readFile (files w) (filePath (job_data job)) lg) = Inr recs
             \<and> run_job (excel_process readFile faults) t0 t1 job w = (job', w')"
  have p: "\<And>lg'. fst (parseExcel readFile (files w) (filePath (job_data job)) lg') = Inr recs"
    using a excel_parse_any by blast
  have ex: "files w (filePath (job_data job)) \<noteq> None"
    using a parseExcel_file by blast
  from run_job_parse_ok [where parse = "parseExcel readFile" and w = w and job = job and recs = recs
      and mvf = "[js ''Tags'', js ''Categories'']"
      and pmv = excel_parseMultiValueField and faults = faults and ?t0.0 = t0 and ?t1.0 = t1, OF p ex] a
  show ?thesis
    by (auto simp add: excel_process_def excel_processRecord_def)
qed

lemma worker_parse_failed:
  assumes "fst (parseCSV csvParser (files w) (filePath (job_data job)) lg) = Inl e
             \<and> run_job (csv_process csvParser faults) t0 t1 job w = (job', w')
           \<or> fst (parseExcel readFile (files w) (filePath (job_data job)) lg) = Inl e
             \<and> run_job (excel_process readFile faults) t0 t1 job w = (job', w')"
  shows "state job' = Failed \<and> failedReason job' = Some (message e)
           \<and> returnvalue job' = returnvalue job
           \<and> job_id job' = job_id job \<and> job_data job' = job_data job \<and> progress job' = progress job
           \<and> created job' = created job
           \<and> processedOn job' = Some t0 \<and> finishedOn job' = Some t1
           \<and> files w' = files w \<and> emitted w' = emitted w"
  using assms
proof
  assume a: "fst (parseCSV csvParser (files w) (filePath (job_data job)) lg) = Inl e
             \<and> run_job (csv_process csvParser faults) t0 t1 job w = (job', w')"
  have p: "\<And>lg'. fst (parseCSV csvParser (files w) (filePath (job_data job)) lg') = Inl e"
    using a csv_parse_any by blast
  from run_job_parse_failed [where parse = "parseCSV csvParser" and w = w and job = job and e = e
      and proc = "csv_processRecord faults" and ?t0.0 = t0 and ?t1.0 = t1, OF p] a
  show ?thesis
    by (auto simp add: csv_process_def)
next
  assume a: "fst (parseExcel readFile (files w) (filePath (job_data job)) lg) = Inl e
             \<and> run_job (excel_process readFile faults) t0 t1 job w = (job', w')"
  have p: "\<And>lg'. fst (parseExcel readFile (files w) (filePath (job_data job)) lg') = Inl e"
    using a excel_parse_any by blast
  from run_job_parse_failed [where parse = "parseExcel readFile" and w = w and job = job and e = e
      and proc = "excel_processRecord faults" and ?t0.0 = t0 and ?t1.0 = t1, OF p] a
  show ?thesis
    by (auto simp add: excel_process_def)
qed

lemma ex_len: "length example_records = 2" by (simp add: example_records_def)

lemma example_parse:
  "fst (parseCSV Inr (files example_world) (filePath (job_data example_job)) []) = Inr example_records"
  by (simp add: parseCSV_def example_world_def example_job_def)

lemma missingColumns_alt:
  "missingColumns headers = filter (\<lambda>col. Some (VStr col) \<notin> set headers) requiredColumns"
  by (simp add: missingColumns_def array_includes_def)

section \<open>Tokens\<close>

lemma last_dropWhile_nonempty:
  "dropWhile P xs \<noteq> [] \<Longrightarrow> last (dropWhile P xs) = last xs"
  by (induction xs) (auto split: if_splits)

lemma trim_idem: "trim (trim s) = trim s"
proof -
  define t where "t = dropWhile white_space s"
  define u where "u = dropWhile white_space (rev t)"
  have ts: "trim s = rev u" by (simp add: trim_def t_def u_def)
  have a: "dropWhile white_space (rev u) = rev u"
  proof (cases "u = []")
    case True
    then show ?thesis by simp
  next
    case False
    then have tne: "t \<noteq> []" by (auto simp add: u_def)
    have "\<not> white_space (hd t)"
      unfolding t_def using tne hd_dropWhile t_def by blast
    moreover have "hd (rev u) = last u"
      using False by (simp add: hd_rev)
    moreover have "last u = last (rev t)"
      unfolding u_def using False u_def by (simp add: last_dropWhile_nonempty)
    moreover have "last (rev t) = hd t"
      using tne by (simp add: last_rev)
    ultimately have "\<not> white_space (hd (rev u))" by simp
    then show ?thesis
      using False by (cases "rev u") simp_all
  qed
  have b: "dropWhile white_space u = u"
    unfolding u_def by (rule dropWhile_idem)
  show ?thesis
    unfolding ts by (simp add: trim_def a b)
qed

lemma split_tokens_trimmed: "list_all (\<lambda>t. t \<noteq> [] \<and> trim t = t) (split_tokens s)"
  by (auto simp add: split_tokens_def list_all_iff trim_idem)

lemma csv_tokens_trimmed: "list_all (\<lambda>t. t \<noteq> [] \<and> trim t = t) (csv_parseMultiValueField v)"
  by (cases v) (simp_all add: split_tokens_trimmed)

lemma excel_tokens_trimmed: "list_all (\<lambda>t. t \<noteq> [] \<and> trim t = t) (excel_parseMultiValueField v)"
proof (cases v)
  case (VArr xs)
  then show ?thesis by (auto simp add: list_all_iff trim_idem)
qed (simp_all add: split_tokens_trimmed)

lemma strip_wrapped:
  "quote_char a \<Longrightarrow> quote_char b \<Longrightarrow> s \<noteq> [] \<Longrightarrow> list_all (\<lambda>x. \<not> line_terminator x) s \<Longrightarrow>
     strip_outer_quotes (a # s @ [b]) = s"
  by (cases s) (simp_all add: strip_outer_quotes_def)

lemma csv_string_tokens:
  "csv_parseMultiValueField (VStr s) =
     filter (\<lambda>t. t \<noteq> []) (map trim (split_on separator (strip_outer_quotes s)))"
  by (cases s) (simp_all add: split_tokens_def strip_outer_quotes_def trim_def)

lemma excel_string_tokens:
  "excel_parseMultiValueField (VStr s) =
     filter (\<lambda>t. t \<noteq> []) (map trim (split_on separator (strip_outer_quotes s)))"
  by (cases s) (simp_all add: split_tokens_def strip_outer_quotes_def trim_def)

section \<open>Pages\<close>

lemma filter_range: "filter (\<lambda>i. a \<le> i \<and> i < b) [0..<n] = [a..<min b n]"
proof (induction n)
  case 0
  then show ?case by simp
next
  case (Suc n)
  show ?case
  proof (cases "n < b")
    case True
    then have m: "min b n = n" "min b (Suc n) = Suc n" by simp_all
    show ?thesis
      using Suc True unfolding m by (cases "a \<le> n") simp_all
  next
    case False
    then have m: "min b n = b" "min b (Suc n) = b" by simp_all
    show ?thesis
      using Suc False unfolding m by simp
  qed
qed

lemma positions_page_range:
  assumes "0 \<le> (p - 1) * s"
  shows "positions_page jobs p s = jobs_at jobs (nat ((p - 1) * s)) (min (nat (p * s)) (length jobs))"
proof -
  have "(\<lambda>i. (p - 1) * s \<le> int i \<and> int i < p * s) = (\<lambda>i. nat ((p - 1) * s) \<le> i \<and> i < nat (p * s))"
    using assms by (intro ext) linarith
  then show ?thesis
    by (simp only: positions_page_def jobs_at_def filter_range)
qed

lemma drop_take_nth:
  assumes "n \<le> length xs"
  shows "drop a (take n xs) = map (\<lambda>i. xs ! i) [a..<n]"
proof -
  have "drop a (take n xs) = drop a (take n (map (\<lambda>i. xs ! i) [0..<length xs]))"
    by (simp only: map_nth)
  also have "\<dots> = map (\<lambda>i. xs ! i) (drop a (take n [0..<length xs]))"
    by (simp only: take_map drop_map)
  also have "\<dots> = map (\<lambda>i. xs ! i) [a..<n]"
    using assms by simp
  finally show ?thesis .
qed

lemma js_slice_range:
  assumes "0 \<le> a" and "a \<le> b"
  shows "js_slice xs a b = jobs_at xs (nat a) (min (nat b) (length xs))"
proof (cases "a < int (length xs)")
  case False
  then have "js_slice xs a b = []"
    using assms by (simp add: js_slice_def Let_def min_def)
  moreover have "jobs_at xs (nat a) (min (nat b) (length xs)) = []"
    using False assms by (simp add: jobs_at_def)
  ultimately show ?thesis by simp
next
  case True
  let ?n = "min (nat b) (length xs)"
  define final where "final = min b (int (length xs))"
  have k: "min a (int (length xs)) = a"
    using True by simp
  have fa: "a \<le> final"
    using True assms by (simp add: final_def)
  have fn: "nat final = ?n"
    using assms by (simp add: final_def min_def) linarith
  have f: "nat (final - a) = ?n - nat a"
    using assms(1) fa fn by (simp add: nat_diff_distrib)
  have "js_slice xs a b = take (nat (final - a)) (drop (nat a) xs)"
    using assms by (simp add: js_slice_def Let_def k final_def)
  also have "\<dots> = take (?n - nat a) (drop (nat a) xs)"
    by (simp only: f)
  also have "\<dots> = drop (nat a) (take ?n xs)"
    by (simp add: drop_take)
  also have "\<dots> = map (\<lambda>i. xs ! i) [nat a..<?n]"
    by (rule drop_take_nth) simp
  finally show ?thesis by (simp only: jobs_at_def)
qed

lemma slice_is_positions:
  assumes "1 \<le> p" and "1 \<le> s"
  shows "js_slice jobs ((p - 1) * s) ((p - 1) * s + s) = positions_page jobs p s"
proof -
  have a: "0 \<le> (p - 1) * s" using assms by simp
  have b: "(p - 1) * s + s = p * s" by (simp add: algebra_simps)
  have c: "(p - 1) * s \<le> p * s" using assms by (simp add: algebra_simps)
  have "js_slice jobs ((p - 1) * s) ((p - 1) * s + s) = js_slice jobs ((p - 1) * s) (p * s)"
    by (simp only: b)
  also have "\<dots> = jobs_at jobs (nat ((p - 1) * s)) (min (nat (p * s)) (length jobs))"
    by (rule js_slice_range [OF a c])
  also have "\<dots> = positions_page jobs p s"
    by (rule positions_page_range [OF a, symmetric])
  finally show ?thesis .
qed

lemma example_jobs_length: "length example_jobs = 25"
  by (simp add: example_jobs_def)

lemma example_queue_lookup:
  "getQueueByWorkerType (js ''csv'') example_queues = Some (csvQueue example_queues, js ''csv'')"
  by (simp add: getQueueByWorkerType_def toLowerCase_def js_def)

lemma example_jobs_lookup:
  "jobs_by_status (csvQueue example_queues) (js ''completed'') = Some example_jobs"
  by (simp add: jobs_by_status_def example_queues_def js_def)

section \<open>Properties of the pipeline\<close>



text \<open>
  C2, as the code has it. A job whose parse stage returns \<open>recs\<close> emits one progress value
  after each record, the \<open>k\<close>-th being \<open>Math.floor((k / total) * 100)\<close> in double arithmetic.
  The values never decrease, the value 100 is emitted after the last record and after no
  other, and a job with at least one record has progress 100 when it completes. A job
  with no record emits nothing and completes with the progress it started with.
\<close>

theorem progress_sequence:
  assumes "fst (parseCSV csvParser (files w) (filePath (job_data job)) lg) = Inr recs
             \<and> run_job (csv_process csvParser faults) t0 t1 job w = (job', w')
           \<or> fst (parseExcel readFile (files w) (filePath (job_data job)) lg) = Inr recs
             \<and> run_job (excel_process readFile faults) t0 t1 job w = (job', w')"
    and "length recs < 2 ^ 32"
  shows "state job' = Completed
       \<and> emitted w' = emitted w @ map (\<lambda>i. js_progress (Suc i) (length recs)) [0..<length recs]
       \<and> sorted (map (\<lambda>i. js_progress (Suc i) (length recs)) [0..<length recs])
       \<and> (\<forall>i < length recs. (js_progress (Suc i) (length recs) = 100) = (Suc i = length recs))
       \<and> (recs \<noteq> [] \<longrightarrow> progress job' = 100 \<and> last (emitted w') = 100)
       \<and> (recs = [] \<longrightarrow> progress job' = progress job \<and> emitted w' = emitted w)"
proof -
  from worker_parse_ok [OF assms(1)] have
    st: "state job' = Completed"
    and pr: "progress job' = (if recs = [] then progress job else js_progress (length recs) (length recs))"
    and em: "emitted w' = emitted w @ map (\<lambda>i. js_progress (Suc i) (length recs)) [0..<length recs]"
    by auto
  have bound: "length recs \<le> 2 ^ 53"
  proof -
    have "(2::nat) ^ 32 \<le> 2 ^ 53" by (rule power_increasing) simp_all
    with assms(2) show ?thesis by linarith
  qed
  have hundred: "\<forall>i < length recs. (js_progress (Suc i) (length recs) = 100) = (Suc i = length recs)"
    using progress_hundred_iff [OF _ bound] by blast
  have nonempty: "recs \<noteq> [] \<longrightarrow> progress job' = 100 \<and> last (emitted w') = 100"
  proof
    assume ne: "recs \<noteq> []"
    then have pos: "0 < length recs" by simp
    then obtain k where k: "length recs = Suc k"
      using gr0_implies_Suc by blast
    have "progress job' = 100"
      using pr ne js_progress_total [OF pos] by simp
    moreover have "last (emitted w') = js_progress (length recs) (length recs)"
      unfolding em k by simp
    ultimately show "progress job' = 100 \<and> last (emitted w') = 100"
      using js_progress_total [OF pos] by simp
  qed
  show ?thesis
    using st em pr hundred nonempty progress_values_sorted [of "length recs"] by simp
qed

text \<open>
  Two records: the values 50 and 100. The rounding shows after 29 of 100 records, where
  the value is 28.
\<close>

theorem progress_sequence_witness:
  "fst (parseCSV Inr (files example_world) (filePath (job_data example_job)) []) = Inr example_records
   \<and> length example_records < 2 ^ 32
   \<and> state (fst (run_job (csv_process Inr never_fails) 1 2 example_job example_world)) = Completed
   \<and> emitted (snd (run_job (csv_process Inr never_fails) 1 2 example_job example_world)) = [50, 100]
   \<and> progress (fst (run_job (csv_process Inr never_fails) 1 2 example_job example_world)) = 100
   \<and> js_progress 29 100 = 28"
proof -
  let ?r = "run_job (csv_process Inr never_fails) 1 2 example_job example_world"
  have l: "length example_records < 2 ^ 32"
    by (simp add: example_records_def)
  have n: "example_records \<noteq> []"
    by (simp add: example_records_def)
  have e: "emitted example_world = []"
    by (simp add: example_world_def)
  have m: "map (\<lambda>i. js_progress (Suc i) (length example_records)) [0..<length example_records] = [50, 100]"
    unfolding ex_len by code_simp
  have h: "fst (parseCSV Inr (files example_world) (filePath (job_data example_job)) []) = Inr example_records
             \<and> ?r = (fst ?r, snd ?r)
           \<or> fst (parseExcel (\<lambda>f. Inl (Error [])) (files example_world) (filePath (job_data example_job)) []) = Inr example_records
             \<and> run_job (excel_process (\<lambda>f. Inl (Error [])) never_fails) 1 2 example_job example_world = (fst ?r, snd ?r)"
    using example_parse by simp
  note c = progress_sequence [OF h l]
  have "state (fst ?r) = Completed"
    using c by (rule conjunct1)
  moreover have "emitted (snd ?r) = [50, 100]"
    using c [THEN conjunct2, THEN conjunct1] by (simp only: e m append_Nil)
  moreover have "progress (fst ?r) = 100"
    using c n by blast
  moreover have "js_progress 29 100 = 28"
    by code_simp
  ultimately show ?thesis
    using example_parse l by blast
qed

text \<open>
  A job whose file parses to no record completes without ever reaching progress 100.
\<close>

theorem empty_job_progress_counterexample:
  "fst (parseCSV Inr (files empty_world) (filePath (job_data example_job)) []) = Inr []
   \<and> state (fst (run_job (csv_process Inr never_fails) 1 2 example_job empty_world)) = Completed
   \<and> progress (fst (run_job (csv_process Inr never_fails) 1 2 example_job empty_world)) \<noteq> 100
   \<and> emitted (snd (run_job (csv_process Inr never_fails) 1 2 example_job empty_world)) = []"
  by (simp add: run_job_def csv_process_def process_def parseCSV_def empty_world_def example_job_def
      unlinkSync_def logger_def Let_def initial_results_def)

text \<open>
  C3. When the record processor throws on a record, \<open>failed\<close> goes up by one and nothing
  else in the counters changes, the failure is written to the log, and the loop goes on:
  one progress value is emitted per record, the job ends completed with no failure
  reason, also when every record failed.
\<close>

theorem record_failure_recovered:
  assumes "fst (parseCSV csvParser (files w) (filePath (job_data job)) lg) = Inr recs
             \<and> run_job (csv_process csvParser faults) t0 t1 job w = (job', w')
           \<or> fst (parseExcel readFile (files w) (filePath (job_data job)) lg) = Inr recs
             \<and> run_job (excel_process readFile faults) t0 t1 job w = (job', w')"
  shows "state job' = Completed \<and> failedReason job' = failedReason job
       \<and> (\<exists>res. returnvalue job' = Some res
             \<and> failed res = length (filter (\<lambda>r. faults r \<noteq> None) recs)
             \<and> processed res = length (filter (\<lambda>r. faults r = None) recs)
             \<and> ((\<forall>r \<in> set recs. faults r \<noteq> None) \<longrightarrow> failed res = length recs \<and> processed res = 0))
       \<and> (\<forall>r e. r \<in> set recs \<and> faults r = Some e \<longrightarrow>
             \<lparr>lvl = Err, msg = js ''Failed to process record'', meta = MetaFailedRecord e r\<rparr>
               \<in> set (logged w'))
       \<and> length (emitted w') = length (emitted w) + length recs
       \<and> (\<forall>r e res0 job0 w0. faults r = Some e \<longrightarrow>
             fst (record_step (csv_processRecord faults) r (res0, job0, (w0 :: 'a world)))
               = res0\<lparr>failed := failed res0 + 1\<rparr>
           \<and> fst (record_step (excel_processRecord faults) r (res0, job0, w0))
               = res0\<lparr>failed := failed res0 + 1\<rparr>)"
proof -
  from worker_parse_ok [OF assms] obtain res where r:
    "state job' = Completed" "returnvalue job' = Some res" "failedReason job' = failedReason job"
    "processed res = length (filter (\<lambda>r. faults r = None) recs)"
    "failed res = length (filter (\<lambda>r. faults r \<noteq> None) recs)"
    "emitted w' = emitted w @ map (\<lambda>i. js_progress (Suc i) (length recs)) [0..<length recs]"
    "\<forall>r e. r \<in> set recs \<and> faults r = Some e \<longrightarrow>
       \<lparr>lvl = Err, msg = js ''Failed to process record'', meta = MetaFailedRecord e r\<rparr> \<in> set (logged w')"
    by auto
  have all: "(\<forall>r \<in> set recs. faults r \<noteq> None) \<longrightarrow> failed res = length recs \<and> processed res = 0"
  proof
    assume a: "\<forall>r \<in> set recs. faults r \<noteq> None"
    then have "filter (\<lambda>r. faults r \<noteq> None) recs = recs"
      by (simp add: filter_id_conv)
    moreover from a have "filter (\<lambda>r. faults r = None) recs = []"
      by (simp add: filter_empty_conv)
    ultimately show "failed res = length recs \<and> processed res = 0"
      using r(4,5) by simp
  qed
  have step: "\<forall>r e res0 job0 w0. faults r = Some e \<longrightarrow>
             fst (record_step (csv_processRecord faults) r (res0, job0, (w0 :: 'a world)))
               = res0\<lparr>failed := failed res0 + 1\<rparr>
           \<and> fst (record_step (excel_processRecord faults) r (res0, job0, w0))
               = res0\<lparr>failed := failed res0 + 1\<rparr>"
    by (simp add: record_step_def csv_processRecord_def excel_processRecord_def processRecord_def
        Let_def)
  have len: "length (emitted w') = length (emitted w) + length recs"
    using r(6) by simp
  show ?thesis
    using r(1-5,7) all step len by blast
qed

text \<open>
  Two records on which the processor always throws: completed, two failed, none processed.
\<close>

theorem record_failure_recovered_witness:
  "fst (parseCSV Inr (files example_world) (filePath (job_data example_job)) []) = Inr example_records
   \<and> list_all (\<lambda>r. always_fails r \<noteq> None) example_records
   \<and> state (fst (run_job (csv_process Inr always_fails) 1 2 example_job example_world)) = Completed
   \<and> (\<exists>res. returnvalue (fst (run_job (csv_process Inr always_fails) 1 2 example_job example_world)) = Some res
         \<and> failed res = 2 \<and> processed res = 0)"
proof -
  have a: "\<forall>r \<in> set example_records. always_fails r \<noteq> None"
    by (simp add: always_fails_def)
  from record_failure_recovered [where csvParser = Inr and w = example_world and job = example_job
      and lg = "[]" and recs = example_records and faults = always_fails and ?t0.0 = 1 and ?t1.0 = 2
      and job' = "fst (run_job (csv_process Inr always_fails) 1 2 example_job example_world)"
      and w' = "snd (run_job (csv_process Inr always_fails) 1 2 example_job example_world)"]
    example_parse a
  show ?thesis
    by (auto simp add: ex_len list_all_iff)
qed

text \<open>
  C4. When a required column \<open>c\<close> is not among the header cells, the spreadsheet parser
  fails with the message that lists the required columns absent from the header, in
  their order, \<open>c\<close> among them. The outcome depends on the header row only, and the job
  fails with its counters at zero, no record outcome, no progress emitted and the file
  left in place.
\<close>

theorem missing_columns_fail:
  assumes "c \<in> set requiredColumns" and "Some (VStr c) \<notin> set (getRow_values worksheet 1)"
  shows "parse_worksheet worksheet =
           Inl (Error (js ''Missing required columns: '' @ join (js '', '')
                  (filter (\<lambda>col. Some (VStr col) \<notin> set (getRow_values worksheet 1)) requiredColumns)))
       \<and> c \<in> set (filter (\<lambda>col. Some (VStr col) \<notin> set (getRow_values worksheet 1)) requiredColumns)
       \<and> (\<forall>other. getRow_values other 1 = getRow_values worksheet 1 \<longrightarrow>
             parse_worksheet other = parse_worksheet worksheet)
       \<and> (files w (filePath (job_data job)) = Some f \<and> readFile f = Inr workbook
            \<and> map_of workbook 1 = Some worksheet
            \<and> run_job (excel_process readFile faults) t0 t1 job w = (job', w')
          \<longrightarrow> state job' = Failed
            \<and> failedReason job' = Some (js ''Missing required columns: '' @ join (js '', '')
                  (filter (\<lambda>col. Some (VStr col) \<notin> set (getRow_values worksheet 1)) requiredColumns))
            \<and> returnvalue job' = returnvalue job \<and> progress job' = progress job
            \<and> emitted w' = emitted w \<and> files w' = files w
            \<and> (\<exists>err lg. excel_process readFile faults (job\<lparr>state := Active, processedOn := Some t0\<rparr>) w =
                  (Some err, \<lparr>processed = 0, failed = 0, total = 0, records = [], summary = []\<rparr>,
                   job\<lparr>state := Active, processedOn := Some t0\<rparr>, w\<lparr>logged := lg\<rparr>)))"
proof -
  let ?missing = "filter (\<lambda>col. Some (VStr col) \<notin> set (getRow_values worksheet 1)) requiredColumns"
  let ?err = "Error (js ''Missing required columns: '' @ join (js '', '') ?missing)"
  have mem: "c \<in> set ?missing"
    using assms by simp
  then have ne: "missingColumns (getRow_values worksheet 1) \<noteq> []"
    by (auto simp add: missingColumns_alt filter_empty_conv)
  have parse: "parse_worksheet worksheet = Inl ?err"
    using ne by (simp add: parse_worksheet_def Let_def missingColumns_alt)
  have indep: "\<forall>other. getRow_values other 1 = getRow_values worksheet 1 \<longrightarrow>
             parse_worksheet other = parse_worksheet worksheet"
    using ne by (simp add: parse_worksheet_def Let_def)
  have jobpart: "files w (filePath (job_data job)) = Some f \<and> readFile f = Inr workbook
            \<and> map_of workbook 1 = Some worksheet
            \<and> run_job (excel_process readFile faults) t0 t1 job w = (job', w')
          \<longrightarrow> state job' = Failed \<and> failedReason job' = Some (message ?err)
            \<and> returnvalue job' = returnvalue job \<and> progress job' = progress job
            \<and> emitted w' = emitted w \<and> files w' = files w
            \<and> (\<exists>err lg. excel_process readFile faults (job\<lparr>state := Active, processedOn := Some t0\<rparr>) w =
                  (Some err, \<lparr>processed = 0, failed = 0, total = 0, records = [], summary = []\<rparr>,
                   job\<lparr>state := Active, processedOn := Some t0\<rparr>, w\<lparr>logged := lg\<rparr>))"
  proof
    assume h: "files w (filePath (job_data job)) = Some f \<and> readFile f = Inr workbook
            \<and> map_of workbook 1 = Some worksheet
            \<and> run_job (excel_process readFile faults) t0 t1 job w = (job', w')"
    have p: "\<And>lg. fst (parseExcel readFile (files w) (filePath (job_data job)) lg) = Inl ?err"
      using h parse by (simp add: parseExcel_def Let_def)
    from run_job_parse_failed [where parse = "parseExcel readFile" and w = w and job = job
        and e = ?err and proc = "excel_processRecord faults" and ?t0.0 = t0 and ?t1.0 = t1, OF p]
    obtain j1 w1 lg where r:
      "run_job (process (parseExcel readFile) (excel_processRecord faults)) t0 t1 job w = (j1, w1)"
      "state j1 = Failed" "failedReason j1 = Some (message ?err)"
      "returnvalue j1 = returnvalue job" "progress j1 = progress job"
      "files w1 = files w" "emitted w1 = emitted w"
      "process (parseExcel readFile) (excel_processRecord faults)
         (job\<lparr>state := Active, processedOn := Some t0\<rparr>) w =
         (Some ?err, \<lparr>processed = 0, failed = 0, total = 0, records = [], summary = []\<rparr>,
          job\<lparr>state := Active, processedOn := Some t0\<rparr>, w\<lparr>logged := lg\<rparr>)"
      by blast
    have eq: "j1 = job'" "w1 = w'"
      using r(1) h unfolding excel_process_def by simp_all
    have ex: "\<exists>err lg. excel_process readFile faults (job\<lparr>state := Active, processedOn := Some t0\<rparr>) w =
                  (Some err, \<lparr>processed = 0, failed = 0, total = 0, records = [], summary = []\<rparr>,
                   job\<lparr>state := Active, processedOn := Some t0\<rparr>, w\<lparr>logged := lg\<rparr>)"
      unfolding excel_process_def using r(8) by blast
    show "state job' = Failed \<and> failedReason job' = Some (message ?err)
            \<and> returnvalue job' = returnvalue job \<and> progress job' = progress job
            \<and> emitted w' = emitted w \<and> files w' = files w
            \<and> (\<exists>err lg. excel_process readFile faults (job\<lparr>state := Active, processedOn := Some t0\<rparr>) w =
                  (Some err, \<lparr>processed = 0, failed = 0, total = 0, records = [], summary = []\<rparr>,
                   job\<lparr>state := Active, processedOn := Some t0\<rparr>, w\<lparr>logged := lg\<rparr>))"
      using r(2-7) ex unfolding eq by blast
  qed
  have m: "message ?err = js ''Missing required columns: '' @ join (js '', '') ?missing"
    by simp
  show ?thesis
    using parse mem indep jobpart unfolding m by blast
qed

text \<open>
  A header without \<open>Price\<close>: the message names \<open>Price\<close> and nothing else.
\<close>

theorem missing_columns_fail_witness:
  "js ''Price'' \<in> set requiredColumns
   \<and> Some (VStr (js ''Price'')) \<notin> set (getRow_values example_sheet 1)
   \<and> parse_worksheet example_sheet = Inl (Error (js ''Missing required columns: Price''))
   \<and> state (fst (run_job (excel_process Inr never_fails) 1 2 xlsx_job xlsx_world)) = Failed
   \<and> failedReason (fst (run_job (excel_process Inr never_fails) 1 2 xlsx_job xlsx_world))
        = Some (js ''Missing required columns: Price'')
   \<and> emitted (snd (run_job (excel_process Inr never_fails) 1 2 xlsx_job xlsx_world)) = []"
proof -
  have a: "js ''Price'' \<in> set requiredColumns"
    by (simp add: requiredColumns_def)
  have b: "Some (VStr (js ''Price'')) \<notin> set (getRow_values example_sheet 1)"
    by (simp add: getRow_values_def example_sheet_def js_def)
  have m: "filter (\<lambda>col. Some (VStr col) \<notin> set (getRow_values example_sheet 1)) requiredColumns
            = [js ''Price'']"
    by (simp add: getRow_values_def example_sheet_def requiredColumns_def js_def)
  have f: "files xlsx_world (filePath (job_data xlsx_job)) = Some [(1, example_sheet)]"
    by (simp add: xlsx_world_def xlsx_job_def)
  have e: "emitted xlsx_world = []"
    by (simp add: xlsx_world_def)
  note inst = missing_columns_fail [OF a b, where w = xlsx_world and job = xlsx_job
      and f = "[(1, example_sheet)]" and readFile = Inr and workbook = "[(1, example_sheet)]"
      and faults = never_fails and ?t0.0 = 1 and ?t1.0 = 2
      and job' = "fst (run_job (excel_process Inr never_fails) 1 2 xlsx_job xlsx_world)"
      and w' = "snd (run_job (excel_process Inr never_fails) 1 2 xlsx_job xlsx_world)"]
  from inst [unfolded m] a b f e
  show ?thesis
    by (simp add: js_def)
qed

text \<open>
  C5. Both normalizers map \<open>a,b,c\<close> to the three tokens, the quoted \<open>x|y\<close> to the two
  tokens, and the empty string, \<open>undefined\<close> and \<open>null\<close> to no token. On a string they strip
  one pair of wrapping quotes, split on comma or pipe, trim and drop the empty tokens,
  so that every token they return is trimmed and not empty.
\<close>

theorem multi_value_normalization:
  "csv_parseMultiValueField (VStr (js ''a,b,c'')) = [js ''a'', js ''b'', js ''c'']
   \<and> excel_parseMultiValueField (VStr (js ''a,b,c'')) = [js ''a'', js ''b'', js ''c'']
   \<and> csv_parseMultiValueField (VStr (0x22 # js ''x|y'' @ [0x22])) = [js ''x'', js ''y'']
   \<and> excel_parseMultiValueField (VStr (0x22 # js ''x|y'' @ [0x22])) = [js ''x'', js ''y'']
   \<and> csv_parseMultiValueField (VStr []) = [] \<and> excel_parseMultiValueField (VStr []) = []
   \<and> csv_parseMultiValueField VUndefined = [] \<and> excel_parseMultiValueField VUndefined = []
   \<and> csv_parseMultiValueField VNull = [] \<and> excel_parseMultiValueField VNull = []
   \<and> csv_parseMultiValueField (VStr s) =
         filter (\<lambda>t. t \<noteq> []) (map trim (split_on separator (strip_outer_quotes s)))
   \<and> excel_parseMultiValueField (VStr s) =
         filter (\<lambda>t. t \<noteq> []) (map trim (split_on separator (strip_outer_quotes s)))
   \<and> (quote_char a \<and> quote_char b \<and> m \<noteq> [] \<and> list_all (\<lambda>x. \<not> line_terminator x) m
        \<longrightarrow> strip_outer_quotes (a # m @ [b]) = m)
   \<and> list_all (\<lambda>t. t \<noteq> [] \<and> trim t = t) (csv_parseMultiValueField v)
   \<and> list_all (\<lambda>t. t \<noteq> [] \<and> trim t = t) (excel_parseMultiValueField v)"
proof -
  have 1: "csv_parseMultiValueField (VStr (js ''a,b,c'')) = [js ''a'', js ''b'', js ''c'']"
    by code_simp
  have 2: "excel_parseMultiValueField (VStr (js ''a,b,c'')) = [js ''a'', js ''b'', js ''c'']"
    by code_simp
  have 3: "csv_parseMultiValueField (VStr (0x22 # js ''x|y'' @ [0x22])) = [js ''x'', js ''y'']"
    by code_simp
  have 4: "excel_parseMultiValueField (VStr (0x22 # js ''x|y'' @ [0x22])) = [js ''x'', js ''y'']"
    by code_simp
  have 5: "csv_parseMultiValueField (VStr []) = []" "excel_parseMultiValueField (VStr []) = []"
    "csv_parseMultiValueField VUndefined = []" "excel_parseMultiValueField VUndefined = []"
    "csv_parseMultiValueField VNull = []" "excel_parseMultiValueField VNull = []"
    by simp_all
  show ?thesis
    using 1 2 3 4 5 csv_string_tokens [of s] excel_string_tokens [of s]
      strip_wrapped [of a b m] csv_tokens_trimmed [of v] excel_tokens_trimmed [of v]
    by blast
qed

text \<open>
  The quoted \<open>x|y\<close> loses its quotes, and the tokens of \<open> a , b \<close> come out trimmed.
\<close>

theorem multi_value_normalization_witness:
  "quote_char 0x22 \<and> js ''x|y'' \<noteq> [] \<and> list_all (\<lambda>x. \<not> line_terminator x) (js ''x|y'')
   \<and> strip_outer_quotes (0x22 # js ''x|y'' @ [0x22]) = js ''x|y''
   \<and> list_all (\<lambda>t. t \<noteq> [] \<and> trim t = t) (excel_parseMultiValueField (VStr (js '' a , b '')))
   \<and> excel_parseMultiValueField (VStr (js '' a , b '')) = [js ''a'', js ''b'']"
proof -
  have h: "quote_char 0x22 \<and> quote_char 0x22 \<and> js ''x|y'' \<noteq> []
       \<and> list_all (\<lambda>x. \<not> line_terminator x) (js ''x|y'')"
    by (simp add: quote_char_def js_def line_terminator_def)
  have e: "excel_parseMultiValueField (VStr (js '' a , b '')) = [js ''a'', js ''b'']"
    by code_simp
  from multi_value_normalization [of "js '' a , b ''" "0x22" "0x22" "js ''x|y''" "VStr (js '' a , b '')"] h e
  show ?thesis
    by blast
qed

text \<open>
  C6, as the code has it. On a truthy value that is neither a string nor an array, the
  normalizer of the Excel worker stringifies, strips one pair of wrapping quotes, splits
  on comma or pipe, trims and drops the empty tokens, so the number 5 gives the token
  \<open>5\<close>; the normalizer of the CSV worker returns no token for such a value.
\<close>

theorem non_string_values:
  assumes "truthy v" and "\<not> is_string v" and "\<not> isArray v"
  shows "excel_parseMultiValueField v =
           filter (\<lambda>t. t \<noteq> []) (map trim (split_on separator (strip_outer_quotes (toString v))))
       \<and> csv_parseMultiValueField v = []
       \<and> excel_parseMultiValueField (VNum 5) = [js ''5'']
       \<and> csv_parseMultiValueField (VNum 5) = []"
proof -
  have "excel_parseMultiValueField (VNum 5) = [js ''5'']"
    by code_simp
  then show ?thesis
    using assms by (cases v) (simp_all add: split_tokens_def)
qed

text \<open>
  The number 5 in both workers.
\<close>

theorem non_string_values_witness:
  "truthy (VNum 5) \<and> \<not> is_string (VNum 5) \<and> \<not> isArray (VNum 5)
   \<and> excel_parseMultiValueField (VNum 5) = [js ''5'']
   \<and> csv_parseMultiValueField (VNum 5) = []"
proof -
  have h: "truthy (VNum 5)" "\<not> is_string (VNum 5)" "\<not> isArray (VNum 5)"
    by simp_all
  from non_string_values [OF h] h show ?thesis
    by blast
qed

text \<open>
  The CSV worker does not turn the number 5 into the token \<open>5\<close>.
\<close>

theorem csv_number_counterexample:
  "csv_parseMultiValueField (VNum 5) \<noteq> [js ''5'']"
  by simp

text \<open>
  C7, as the code has it. Classification goes by the lower-cased extension: \<open>.csv\<close> to the
  csv queue, \<open>.xlsx\<close> and \<open>.xls\<close> to the excel queue, anything else is rejected as an
  unsupported file type. An upload with such a name enqueues nothing and is answered
  with status 500, or with 400 when it passes the file filter and exceeds the size
  limit. An accepted upload adds one waiting job to the queue of its type and leaves
  the other queue alone.
\<close>

theorem upload_classification:
  "(toLowerCase (path_extname name) = js ''.csv'' \<longrightarrow>
      getQueueForFile name = Inr (CsvQueue, js ''csv''))
   \<and> (toLowerCase (path_extname name) = js ''.xlsx'' \<or> toLowerCase (path_extname name) = js ''.xls'' \<longrightarrow>
      getQueueForFile name = Inr (ExcelQueue, js ''excel''))
   \<and> (toLowerCase (path_extname name) \<noteq> js ''.csv''
        \<and> toLowerCase (path_extname name) \<noteq> js ''.xlsx''
        \<and> toLowerCase (path_extname name) \<noteq> js ''.xls'' \<longrightarrow>
      getQueueForFile name = Inl (Error (js ''Unsupported file type''))
      \<and> (originalname file = name \<longrightarrow>
            snd (upload (Some file) now qs) = qs
          \<and> fst (fst (upload (Some file) now qs))
              = (if fileFilter file \<and> exceedsLimit file then 400 else 500)))
   \<and> (originalname file = name \<and> fileFilter file \<and> \<not> exceedsLimit file
        \<and> toLowerCase (path_extname name) = js ''.csv'' \<longrightarrow>
      fst (upload (Some file) now qs)
        = (200, Queued (js ''File queued for processing'') (nextId (csvQueue qs)) name (js ''csv''))
      \<and> excelQueue (snd (upload (Some file) now qs)) = excelQueue qs
      \<and> map job_data (getWaiting (csvQueue (snd (upload (Some file) now qs))))
          = map job_data (getWaiting (csvQueue qs))
            @ [\<lparr>filePath = path file, originalName = name, fileType = js ''csv'', timestamp = now\<rparr>])
   \<and> (originalname file = name \<and> fileFilter file \<and> \<not> exceedsLimit file
        \<and> (toLowerCase (path_extname name) = js ''.xlsx'' \<or> toLowerCase (path_extname name) = js ''.xls'') \<longrightarrow>
      fst (upload (Some file) now qs)
        = (200, Queued (js ''File queued for processing'') (nextId (excelQueue qs)) name (js ''excel''))
      \<and> csvQueue (snd (upload (Some file) now qs)) = csvQueue qs
      \<and> map job_data (getWaiting (excelQueue (snd (upload (Some file) now qs))))
          = map job_data (getWaiting (excelQueue qs))
            @ [\<lparr>filePath = path file, originalName = name, fileType = js ''excel'', timestamp = now\<rparr>])"
proof -
  have ne: "js ''.csv'' \<noteq> js ''.xlsx''" "js ''.csv'' \<noteq> js ''.xls''"
    by (simp_all add: js_def)
  have m: "message (Error (js ''Unsupported file type'')) \<noteq> []"
    by (simp add: js_def)
  have 1: "toLowerCase (path_extname name) = js ''.csv'' \<longrightarrow>
      getQueueForFile name = Inr (CsvQueue, js ''csv'')"
    by (simp add: getQueueForFile_def Let_def)
  have 2: "toLowerCase (path_extname name) = js ''.xlsx'' \<or> toLowerCase (path_extname name) = js ''.xls'' \<longrightarrow>
      getQueueForFile name = Inr (ExcelQueue, js ''excel'')"
    using ne by (auto simp add: getQueueForFile_def Let_def)
  have 3: "toLowerCase (path_extname name) \<noteq> js ''.csv''
        \<and> toLowerCase (path_extname name) \<noteq> js ''.xlsx''
        \<and> toLowerCase (path_extname name) \<noteq> js ''.xls'' \<longrightarrow>
      getQueueForFile name = Inl (Error (js ''Unsupported file type''))
      \<and> (originalname file = name \<longrightarrow>
            snd (upload (Some file) now qs) = qs
          \<and> fst (fst (upload (Some file) now qs))
              = (if fileFilter file \<and> exceedsLimit file then 400 else 500))"
    by (simp add: getQueueForFile_def Let_def upload_def)
  have 4: "originalname file = name \<and> fileFilter file \<and> \<not> exceedsLimit file
        \<and> toLowerCase (path_extname name) = js ''.csv'' \<longrightarrow>
      fst (upload (Some file) now qs)
        = (200, Queued (js ''File queued for processing'') (nextId (csvQueue qs)) name (js ''csv''))
      \<and> excelQueue (snd (upload (Some file) now qs)) = excelQueue qs
      \<and> map job_data (getWaiting (csvQueue (snd (upload (Some file) now qs))))
          = map job_data (getWaiting (csvQueue qs))
            @ [\<lparr>filePath = path file, originalName = name, fileType = js ''csv'', timestamp = now\<rparr>]"
    using 1 by (auto simp add: upload_def queue_add_def Let_def)
  have 5: "originalname file = name \<and> fileFilter file \<and> \<not> exceedsLimit file
        \<and> (toLowerCase (path_extname name) = js ''.xlsx'' \<or> toLowerCase (path_extname name) = js ''.xls'') \<longrightarrow>
      fst (upload (Some file) now qs)
        = (200, Queued (js ''File queued for processing'') (nextId (excelQueue qs)) name (js ''excel''))
      \<and> csvQueue (snd (upload (Some file) now qs)) = csvQueue qs
      \<and> map job_data (getWaiting (excelQueue (snd (upload (Some file) now qs))))
          = map job_data (getWaiting (excelQueue qs))
            @ [\<lparr>filePath = path file, originalName = name, fileType = js ''excel'', timestamp = now\<rparr>]"
    using 2 by (auto simp add: upload_def queue_add_def Let_def)
  show ?thesis
    using 1 2 3 4 5 by blast
qed

text \<open>
  \<open>Products.CSV\<close> goes to the csv queue as its first job.
\<close>

theorem upload_classification_witness:
  "toLowerCase (path_extname (js ''Products.CSV'')) = js ''.csv''
   \<and> originalname csv_upload = js ''Products.CSV'' \<and> fileFilter csv_upload \<and> \<not> exceedsLimit csv_upload
   \<and> getQueueForFile (js ''Products.CSV'') = Inr (CsvQueue, js ''csv'')
   \<and> fst (upload (Some csv_upload) 5 empty_queues)
        = (200, Queued (js ''File queued for processing'') 0 (js ''Products.CSV'') (js ''csv''))"
proof -
  have e: "toLowerCase (path_extname (js ''Products.CSV'')) = js ''.csv''"
    by code_simp
  have f: "fileFilter csv_upload"
    by code_simp
  have o: "originalname csv_upload = js ''Products.CSV''" "\<not> exceedsLimit csv_upload"
    by (simp_all add: csv_upload_def)
  have n: "nextId (csvQueue empty_queues) = 0"
    by (simp add: empty_queues_def empty_queue_def)
  from upload_classification [of "js ''Products.CSV''" csv_upload 5 empty_queues] e f o n
  show ?thesis
    by simp
qed

text \<open>
  A text file, stopped by the file filter, and a macro workbook, stopped by the
  classification, are both answered with 500.
\<close>

theorem unsupported_upload_counterexample:
  "getQueueForFile (js ''notes.txt'') = Inl (Error (js ''Unsupported file type''))
   \<and> fst (fst (upload (Some txt_upload) 5 empty_queues)) = 500
   \<and> getQueueForFile (js ''macro.xlsm'') = Inl (Error (js ''Unsupported file type''))
   \<and> fst (fst (upload (Some xlsm_upload) 5 empty_queues)) = 500"
proof -
  have 1: "getQueueForFile (js ''notes.txt'') = Inl (Error (js ''Unsupported file type''))"
    by code_simp
  have 2: "getQueueForFile (js ''macro.xlsm'') = Inl (Error (js ''Unsupported file type''))"
    by code_simp
  have 3: "\<not> fileFilter txt_upload"
    by code_simp
  have 4: "fileFilter xlsm_upload"
    by code_simp
  have 5: "fst (fst (upload (Some txt_upload) 5 empty_queues)) = 500"
    using 3 by (simp add: upload_def)
  have 6: "fst (fst (upload (Some xlsm_upload) 5 empty_queues)) = 500"
    using 4 2 by (simp add: upload_def xlsm_upload_def)
  show ?thesis using 1 2 5 6 by blast
qed

text \<open>
  C8. When the parse stage returns records, the processor returns with the job still
  active and the source file already deleted, whatever the record processor did, and the
  job is then completed; no other file is touched. When the parse stage throws, the job
  fails, the files are as they were, and the id, data, creation time, progress and
  return value of the job are unchanged.
\<close>

theorem file_deleted_on_success_only:
  assumes "run_job (csv_process csvParser faults) t0 t1 job w = (job', w')
             \<and> parsed = fst (parseCSV csvParser (files w) (filePath (job_data job)) lg)
           \<or> run_job (excel_process readFile faults) t0 t1 job w = (job', w')
             \<and> parsed = fst (parseExcel readFile (files w) (filePath (job_data job)) lg)"
  shows "(case parsed of
            Inr recs \<Rightarrow>
              state job' = Completed
              \<and> files w' = (files w)(filePath (job_data job) := None)
              \<and> files w' (filePath (job_data job)) = None
              \<and> (\<exists>res j1.
                    (csv_process csvParser faults (job\<lparr>state := Active, processedOn := Some t0\<rparr>) w
                       = (None, res, j1, w')
                     \<or> excel_process readFile faults (job\<lparr>state := Active, processedOn := Some t0\<rparr>) w
                       = (None, res, j1, w'))
                    \<and> state j1 = Active)
          | Inl e \<Rightarrow>
              state job' = Failed
              \<and> files w' = files w
              \<and> job_id job' = job_id job \<and> job_data job' = job_data job
              \<and> created job' = created job \<and> progress job' = progress job
              \<and> returnvalue job' = returnvalue job
              \<and> failedReason job' = Some (message e))"
proof (cases parsed)
  case (Inl e)
  with assms have "fst (parseCSV csvParser (files w) (filePath (job_data job)) lg) = Inl e
             \<and> run_job (csv_process csvParser faults) t0 t1 job w = (job', w')
           \<or> fst (parseExcel readFile (files w) (filePath (job_data job)) lg) = Inl e
             \<and> run_job (excel_process readFile faults) t0 t1 job w = (job', w')"
    by auto
  from worker_parse_failed [OF this] Inl show ?thesis by simp
next
  case (Inr recs)
  with assms have "fst (parseCSV csvParser (files w) (filePath (job_data job)) lg) = Inr recs
             \<and> run_job (csv_process csvParser faults) t0 t1 job w = (job', w')
           \<or> fst (parseExcel readFile (files w) (filePath (job_data job)) lg) = Inr recs
             \<and> run_job (excel_process readFile faults) t0 t1 job w = (job', w')"
    by auto
  from worker_parse_ok [OF this] obtain res where r:
    "state job' = Completed"
    "files w' = (files w)(filePath (job_data job) := None)"
    "\<exists>j1. (csv_process csvParser faults (job\<lparr>state := Active, processedOn := Some t0\<rparr>) w
                      = (None, res, j1, w')
                   \<or> excel_process readFile faults (job\<lparr>state := Active, processedOn := Some t0\<rparr>) w
                      = (None, res, j1, w'))
                  \<and> state j1 = Active"
    by blast
  have "files w' (filePath (job_data job)) = None"
    using r(2) by simp
  then show ?thesis
    using Inr r by auto
qed

text \<open>
  A file whose records all fail is deleted; a missing file fails the job and changes nothing.
\<close>

theorem file_deleted_on_success_only_witness:
  "(case fst (parseCSV Inr (files example_world) (filePath (job_data example_job)) []) of
      Inr recs \<Rightarrow>
        state (fst (run_job (csv_process Inr always_fails) 1 2 example_job example_world)) = Completed
        \<and> files (snd (run_job (csv_process Inr always_fails) 1 2 example_job example_world))
             (js ''uploads/1.csv'') = None
    | Inl e \<Rightarrow> False)
   \<and> files example_world (js ''uploads/1.csv'') \<noteq> None
   \<and> (case fst (parseCSV Inr (files missing_world) (filePath (job_data example_job)) []) of
      Inr recs \<Rightarrow> False
    | Inl e \<Rightarrow>
        state (fst (run_job (csv_process Inr always_fails) 1 2 example_job missing_world)) = Failed
        \<and> files (snd (run_job (csv_process Inr always_fails) 1 2 example_job missing_world))
             = files missing_world
        \<and> progress (fst (run_job (csv_process Inr always_fails) 1 2 example_job missing_world))
             = progress example_job)"
proof -
  have m: "fst (parseCSV Inr (files missing_world) (filePath (job_data example_job)) [])
             = Inl (ENOENT (js ''uploads/1.csv''))"
    by (simp add: parseCSV_def missing_world_def example_job_def)
  have e: "files example_world (js ''uploads/1.csv'') \<noteq> None"
    by (simp add: example_world_def)
  have p: "filePath (job_data example_job) = js ''uploads/1.csv''"
    by (simp add: example_job_def)
  note ok = file_deleted_on_success_only [where csvParser = Inr and w = example_world
      and readFile = "\<lambda>f. Inl (Error [])"
      and job = example_job and lg = "[]" and faults = always_fails and ?t0.0 = 1 and ?t1.0 = 2
      and parsed = "fst (parseCSV Inr (files example_world) (filePath (job_data example_job)) [])"
      and job' = "fst (run_job (csv_process Inr always_fails) 1 2 example_job example_world)"
      and w' = "snd (run_job (csv_process Inr always_fails) 1 2 example_job example_world)"]
  note ko = file_deleted_on_success_only [where csvParser = Inr and w = missing_world
      and readFile = "\<lambda>f. Inl (Error [])"
      and job = example_job and lg = "[]" and faults = always_fails and ?t0.0 = 1 and ?t1.0 = 2
      and parsed = "fst (parseCSV Inr (files missing_world) (filePath (job_data example_job)) [])"
      and job' = "fst (run_job (csv_process Inr always_fails) 1 2 example_job missing_world)"
      and w' = "snd (run_job (csv_process Inr always_fails) 1 2 example_job missing_world)"]
  have 1: "state (fst (run_job (csv_process Inr always_fails) 1 2 example_job example_world)) = Completed
        \<and> files (snd (run_job (csv_process Inr always_fails) 1 2 example_job example_world))
             (js ''uploads/1.csv'') = None"
    using ok by (simp add: example_parse [unfolded p] p)
  have 2: "state (fst (run_job (csv_process Inr always_fails) 1 2 example_job missing_world)) = Failed
        \<and> files (snd (run_job (csv_process Inr always_fails) 1 2 example_job missing_world))
             = files missing_world
        \<and> progress (fst (run_job (csv_process Inr always_fails) 1 2 example_job missing_world))
             = progress example_job"
    using ko by (simp add: m [unfolded p] p)
  show ?thesis
    using 1 2 e by (simp add: example_parse m)
qed

text \<open>
  C9, as the code has it. For a page \<open>p \<ge> 1\<close> and a page size \<open>s \<ge> 1\<close>, the listing returns
  the jobs at the positions from \<open>(p - 1) * s\<close> up to, not including, \<open>p * s\<close>, as far as the
  list goes, and reports the ceiling of \<open>n / s\<close> as the number of pages.
\<close>

theorem page_listing:
  assumes "worker query = Some wt" and "wt \<noteq> []"
    and "getQueueByWorkerType wt qs = Some (q, ty)"
    and "status query = Some st" and "st \<noteq> []"
    and "jobs_by_status q st = Some jobs"
    and "page_param query = Some p" and "pageSize_param query = Some s"
    and "1 \<le> p" and "1 \<le> s" and "length jobs < 2 ^ 32"
  shows "list_jobs query qs =
           (200, JobsPage wt st
                   \<lparr>page = p, pageSize = s, totalJobs = length jobs,
                    totalPages = \<lceil>(of_nat (length jobs) / of_int s :: rat)\<rceil>\<rparr>
                   (getJobCounts q) (positions_page jobs p s))
       \<and> positions_page jobs p s
           = jobs_at jobs (nat ((p - 1) * s)) (min (nat (p * s)) (length jobs))"
proof -
  have n53: "length jobs < 2 ^ 53"
  proof -
    have "(2::nat) ^ 32 \<le> 2 ^ 53" by (rule power_increasing) simp_all
    with assms(11) show ?thesis by linarith
  qed
  have pg: "or_default (page_param query) 1 = p" and sz: "or_default (pageSize_param query) 10 = s"
    using assms(7-10) by (simp_all add: or_default_def)
  have sl: "js_slice jobs ((p - 1) * s) ((p - 1) * s + s) = positions_page jobs p s"
    using assms(9,10) by (rule slice_is_positions)
  have tp: "totalPages_of (length jobs) s = \<lceil>(of_nat (length jobs) / of_int s :: rat)\<rceil>"
    using n53 assms(10) by (rule totalPages_exact)
  have 1: "list_jobs query qs =
           (200, JobsPage wt st
                   \<lparr>page = p, pageSize = s, totalJobs = length jobs,
                    totalPages = \<lceil>(of_nat (length jobs) / of_int s :: rat)\<rceil>\<rparr>
                   (getJobCounts q) (positions_page jobs p s))"
    using assms(1-6) by (simp add: list_jobs_def Let_def pg sz sl tp)
  have "0 \<le> (p - 1) * s" using assms(9,10) by simp
  then have 2: "positions_page jobs p s
           = jobs_at jobs (nat ((p - 1) * s)) (min (nat (p * s)) (length jobs))"
    by (rule positions_page_range)
  show ?thesis using 1 2 by (rule conjI)
qed

text \<open>
  Twenty-five completed jobs, page 2 of size 10: positions 10 to 19, three pages.
\<close>

theorem page_listing_witness:
  "(1::int) \<le> 2 \<and> (1::int) \<le> 10 \<and> length example_jobs < 2 ^ 32
   \<and> list_jobs (example_query 2 10) example_queues =
       (200, JobsPage (js ''csv'') (js ''completed'')
               \<lparr>page = 2, pageSize = 10, totalJobs = 25, totalPages = 3\<rparr>
               (getJobCounts (csvQueue example_queues)) (jobs_at example_jobs 10 20))"
proof -
  have l: "length example_jobs < 2 ^ 32"
    by (simp add: example_jobs_length)
  have c: "\<lceil>(of_nat 25 / of_int 10 :: rat)\<rceil> = 3"
    by (simp add: ceiling_eq_iff)
  from page_listing [where query = "example_query 2 10" and qs = example_queues
      and wt = "js ''csv''" and st = "js ''completed''" and q = "csvQueue example_queues"
      and ty = "js ''csv''" and jobs = example_jobs and p = 2 and s = 10,
      OF _ _ example_queue_lookup _ _ example_jobs_lookup _ _ _ _ l]
  have "list_jobs (example_query 2 10) example_queues =
           (200, JobsPage (js ''csv'') (js ''completed'')
                   \<lparr>page = 2, pageSize = 10, totalJobs = length example_jobs,
                    totalPages = \<lceil>(of_nat (length example_jobs) / of_int 10 :: rat)\<rceil>\<rparr>
                   (getJobCounts (csvQueue example_queues)) (positions_page example_jobs 2 10))
       \<and> positions_page example_jobs 2 10
           = jobs_at example_jobs (nat ((2 - 1) * 10)) (min (nat (2 * 10)) (length example_jobs))"
    by (simp add: example_query_def js_def)
  then show ?thesis
    using l c by (simp add: example_jobs_length)
qed

text \<open>
  Page \<open>-1\<close> of size 10 returns the jobs at positions 5 to 14, and page 1 of size
  \<open>-10\<close> those at positions 0 to 14, where the claim's range holds no position at all.
\<close>

theorem negative_page_counterexample:
  "list_jobs (example_query (- 1) 10) example_queues =
       (200, JobsPage (js ''csv'') (js ''completed'')
               \<lparr>page = - 1, pageSize = 10, totalJobs = 25, totalPages = 3\<rparr>
               (getJobCounts (csvQueue example_queues)) (jobs_at example_jobs 5 15))
   \<and> positions_page example_jobs (- 1) 10 = []
   \<and> jobs_at example_jobs 5 15 \<noteq> []
   \<and> list_jobs (example_query 1 (- 10)) example_queues =
       (200, JobsPage (js ''csv'') (js ''completed'')
               \<lparr>page = 1, pageSize = - 10, totalJobs = 25, totalPages = - 2\<rparr>
               (getJobCounts (csvQueue example_queues)) (jobs_at example_jobs 0 15))
   \<and> positions_page example_jobs 1 (- 10) = []
   \<and> jobs_at example_jobs 0 15 \<noteq> []"
proof -
  have tp: "totalPages_of 25 10 = 3"
  proof -
    have "totalPages_of 25 10 = \<lceil>(of_nat 25 / of_int 10 :: rat)\<rceil>"
      by (rule totalPages_exact) simp_all
    then show ?thesis by (simp add: ceiling_eq_iff)
  qed
  have tn: "totalPages_of 25 (- 10) = - 2"
    by code_simp
  have sl: "js_slice example_jobs (- 20) (- 10) = jobs_at example_jobs 5 15"
  proof -
    have "js_slice example_jobs (- 20) (- 10) = take 10 (drop 5 example_jobs)"
      by (simp add: js_slice_def Let_def example_jobs_length)
    also have "\<dots> = drop 5 (take 15 example_jobs)"
      by (simp add: drop_take)
    also have "\<dots> = map (\<lambda>i. example_jobs ! i) [5..<15]"
      by (rule drop_take_nth) (simp add: example_jobs_length)
    finally show ?thesis by (simp only: jobs_at_def)
  qed
  have sn: "js_slice example_jobs 0 (- 10) = jobs_at example_jobs 0 15"
  proof -
    have "js_slice example_jobs 0 (- 10) = drop 0 (take 15 example_jobs)"
      by (simp add: js_slice_def Let_def example_jobs_length)
    also have "\<dots> = map (\<lambda>i. example_jobs ! i) [0..<15]"
      by (rule drop_take_nth) (simp add: example_jobs_length)
    finally show ?thesis by (simp only: jobs_at_def)
  qed
  have 1: "list_jobs (example_query (- 1) 10) example_queues =
       (200, JobsPage (js ''csv'') (js ''completed'')
               \<lparr>page = - 1, pageSize = 10, totalJobs = 25, totalPages = 3\<rparr>
               (getJobCounts (csvQueue example_queues)) (jobs_at example_jobs 5 15))"
    using example_queue_lookup example_jobs_lookup
    by (simp add: list_jobs_def Let_def example_query_def or_default_def example_jobs_length tp sl)
      (simp add: js_def)
  have 2: "positions_page example_jobs (- 1) 10 = []"
    by (simp add: positions_page_def filter_empty_conv)
  have 3: "jobs_at example_jobs 5 15 \<noteq> []"
    by (simp add: jobs_at_def)
  have 4: "list_jobs (example_query 1 (- 10)) example_queues =
       (200, JobsPage (js ''csv'') (js ''completed'')
               \<lparr>page = 1, pageSize = - 10, totalJobs = 25, totalPages = - 2\<rparr>
               (getJobCounts (csvQueue example_queues)) (jobs_at example_jobs 0 15))"
    using example_queue_lookup example_jobs_lookup
    by (simp add: list_jobs_def Let_def example_query_def or_default_def example_jobs_length tn sn)
      (simp add: js_def)
  have 5: "positions_page example_jobs 1 (- 10) = []"
    by (simp add: positions_page_def filter_empty_conv)
  have 6: "jobs_at example_jobs 0 15 \<noteq> []"
    by (simp add: jobs_at_def)
  show ?thesis using 1 2 3 4 5 6 by blast
qed

text \<open>
  C10. On every string the normalizer of the CSV worker and the normalizer of the Excel
  worker return the same tokens.
\<close>

theorem normalizers_agree_on_strings:
  "csv_parseMultiValueField (VStr s) = excel_parseMultiValueField (VStr s)"
  by simp

text \<open>
  They agree on \<open>a|b\<close> and differ on the number 5.
\<close>

theorem normalizers_agree_on_strings_witness:
  "csv_parseMultiValueField (VStr (js ''a|b'')) = excel_parseMultiValueField (VStr (js ''a|b''))
   \<and> csv_parseMultiValueField (VNum 5) \<noteq> excel_parseMultiValueField (VNum 5)"
proof -
  have "excel_parseMultiValueField (VNum 5) = [js ''5'']"
    by code_simp
  then show ?thesis
    using normalizers_agree_on_strings [of "js ''a|b''"] by simp
qed

end
